theory Spec2Isabelle
  imports Main
begin

section \<open>Errors\<close>

text \<open>
  The exceptions the program can raise: \<open>InvalidCardDeck\<close> is its own class, the others are
  the built-in exceptions raised by list indexing (\<open>IndexError\<close>), by \<open>list.index\<close> and the
  \<open>Suit\<close> enumeration lookup (\<open>ValueError\<close>), by \<open>None.group\<close> after a failed regular-expression
  match (\<open>AttributeError\<close>) and by an ordering comparison with \<open>None\<close> (\<open>TypeError\<close>).
  A function that can raise returns \<open>error + 'a\<close>, \<open>Inl\<close> carrying the exception.
\<close>

datatype error = IndexError | ValueError | AttributeError | TypeError | InvalidCardDeck

definition ebind :: "error + 'a \<Rightarrow> ('a \<Rightarrow> error + 'b) \<Rightarrow> error + 'b" where
  "ebind m f = (case m of Inl e \<Rightarrow> Inl e | Inr x \<Rightarrow> f x)"

definition idx :: "'a list \<Rightarrow> nat \<Rightarrow> error + 'a" where
  "idx xs i = (if i < length xs then Inr (xs ! i) else Inl IndexError)"

section \<open>Card model\<close>

datatype Suit = CLUBS | DIAMONDS | HEARTS | SPADES

fun Suit_value :: "Suit \<Rightarrow> char" where
  "Suit_value CLUBS = CHR ''C''"
| "Suit_value DIAMONDS = CHR ''D''"
| "Suit_value HEARTS = CHR ''H''"
| "Suit_value SPADES = CHR ''S''"

definition Suit_init :: "char \<Rightarrow> error + Suit" where
  "Suit_init v =
     (if v = CHR ''C'' then Inr CLUBS
      else if v = CHR ''D'' then Inr DIAMONDS
      else if v = CHR ''H'' then Inr HEARTS
      else if v = CHR ''S'' then Inr SPADES
      else Inl ValueError)"

text \<open>
  A \<open>Face\<close> object is only ever built by \<open>Face(rep)\<close>, which raises \<open>ValueError\<close> unless \<open>rep\<close>
  is one of the thirteen symbols of \<open>Face.faces\<close>; its \<open>value\<close> is the position of \<open>rep\<close> in
  that list. The type has one constructor for each entry of the list, in the list's order,
  with \<open>Face_rep\<close> and \<open>Face_value\<close> the two fields. \<open>Face.__eq__\<close> compares values, which is
  equality of the constructors (\<open>Face_value\<close> is injective); \<open>Face.__lt__\<close> is \<open><\<close> on
  values.
\<close>

datatype Face = Two | Three | Four | Five | Six | Seven | Eight | Nine | Ten | Jack
  | Queen | King | Ace

definition faces :: "(char \<times> Face) list" where
  "faces = [(CHR ''2'', Two), (CHR ''3'', Three), (CHR ''4'', Four), (CHR ''5'', Five),
            (CHR ''6'', Six), (CHR ''7'', Seven), (CHR ''8'', Eight), (CHR ''9'', Nine),
            (CHR ''T'', Ten), (CHR ''J'', Jack), (CHR ''Q'', Queen), (CHR ''K'', King),
            (CHR ''A'', Ace)]"

fun Face_value :: "Face \<Rightarrow> int" where
  "Face_value Two = 0"
| "Face_value Three = 1"
| "Face_value Four = 2"
| "Face_value Five = 3"
| "Face_value Six = 4"
| "Face_value Seven = 5"
| "Face_value Eight = 6"
| "Face_value Nine = 7"
| "Face_value Ten = 8"
| "Face_value Jack = 9"
| "Face_value Queen = 10"
| "Face_value King = 11"
| "Face_value Ace = 12"

fun Face_rep :: "Face \<Rightarrow> char" where
  "Face_rep Two = CHR ''2''"
| "Face_rep Three = CHR ''3''"
| "Face_rep Four = CHR ''4''"
| "Face_rep Five = CHR ''5''"
| "Face_rep Six = CHR ''6''"
| "Face_rep Seven = CHR ''7''"
| "Face_rep Eight = CHR ''8''"
| "Face_rep Nine = CHR ''9''"
| "Face_rep Ten = CHR ''T''"
| "Face_rep Jack = CHR ''J''"
| "Face_rep Queen = CHR ''Q''"
| "Face_rep King = CHR ''K''"
| "Face_rep Ace = CHR ''A''"

definition Face_init :: "char \<Rightarrow> error + Face" where
  "Face_init rep = (case map_of faces rep of None \<Rightarrow> Inl ValueError | Some f \<Rightarrow> Inr f)"

definition Face_str :: "Face \<Rightarrow> string" where
  "Face_str f = [Face_rep f]"

datatype Card = Card (face: Face) (suit: Suit)

definition Card_eq :: "Card \<Rightarrow> Card \<Rightarrow> bool" where
  "Card_eq c d = (face c = face d)"

definition Card_lt :: "Card \<Rightarrow> Card \<Rightarrow> bool" where
  "Card_lt c d = (Face_value (face c) < Face_value (face d))"

definition Card_fromRep :: "string \<Rightarrow> error + Card" where
  "Card_fromRep rep =
     ebind (idx rep 0) (\<lambda>r0. ebind (Face_init r0) (\<lambda>f.
     ebind (idx rep 1) (\<lambda>r1. ebind (Suit_init r1) (\<lambda>s. Inr (Card f s)))))"

section \<open>Sets and sorting\<close>

text \<open>
  A Python set is modelled by the list of its elements without repetition. The order of the
  list stands for the iteration order of the set, which the program never relies on: the
  card lists are sorted by face before use and the counts are taken per face and per suit.
  \<open>pyset\<close> builds a set from the elements of an iterable: an element already present is
  dropped. For cards, the elements that a set keeps apart are the cards that differ in
  (face, suit), the pair that \<open>Card.__hash__\<close> hashes, as long as the built-in hash gives
  different pairs different values; \<open>pyset_hash\<close> below states the insertion with the hash
  and \<open>Card.__eq__\<close> as the program defines them.
\<close>

definition set_add :: "'a \<Rightarrow> 'a list \<Rightarrow> 'a list" where
  "set_add x s = (if x \<in> set s then s else s @ [x])"

definition pyset :: "'a list \<Rightarrow> 'a list" where
  "pyset xs = fold set_add xs []"

text \<open>
  \<open>Card.__hash__\<close> is \<open>hash((self.face, self.suit))\<close>, where \<open>hash\<close> is the built-in hash
  of Python, a function of the pair here and a parameter of the model. A set takes a card
  for one it already holds when the two hashes are equal and \<open>Card.__eq__\<close> holds, which
  compares the faces only.
\<close>

definition Card_hash :: "(Face \<times> Suit \<Rightarrow> int) \<Rightarrow> Card \<Rightarrow> int" where
  "Card_hash hash c = hash (face c, suit c)"

definition set_add_hash :: "(Face \<times> Suit \<Rightarrow> int) \<Rightarrow> Card \<Rightarrow> Card list \<Rightarrow> Card list" where
  "set_add_hash hash c s =
     (if \<exists>d \<in> set s. Card_hash hash d = Card_hash hash c \<and> Card_eq d c then s else s @ [c])"

definition pyset_hash :: "(Face \<times> Suit \<Rightarrow> int) \<Rightarrow> Card list \<Rightarrow> Card list" where
  "pyset_hash hash cs = fold (set_add_hash hash) cs []"

text \<open>
  \<open>sorted(xs, reverse=True)\<close> is a stable sort in descending order: elements that compare
  equal keep the order they have in \<open>xs\<close>. The comparison \<open>x < y\<close> of the elements is
  \<open>key x < key y\<close> for cards (key: the face value) and for faces (key: the value).
\<close>

definition sorted_reverse :: "('a \<Rightarrow> int) \<Rightarrow> 'a list \<Rightarrow> 'a list" where
  "sorted_reverse key xs = rev (sort_key key (rev xs))"

section \<open>Hand\<close>

record Hand =
  colour :: string
  cards :: "Card list"
  faceCounts :: "(Face \<times> nat) list"
  suitCounts :: "(Suit \<times> nat) list"

text \<open>
  \<open>_grouped\<close> fills a \<open>defaultdict(list)\<close>: a key seen for the first time is added after the
  keys already there, with the one card; a key already there gets the card added at the end of
  its list. The dictionary is an association list in insertion order.
\<close>

fun grouped_append :: "'k \<Rightarrow> Card \<Rightarrow> ('k \<times> Card list) list \<Rightarrow> ('k \<times> Card list) list" where
  "grouped_append k c [] = [(k, [c])]"
| "grouped_append k c ((k', l) # g) =
     (if k' = k then (k', l @ [c]) # g else (k', l) # grouped_append k c g)"

definition grouped :: "Card list \<Rightarrow> (Card \<Rightarrow> 'k) \<Rightarrow> ('k \<times> Card list) list" where
  "grouped cs fun = fold (\<lambda>card g. grouped_append (fun card) card g) cs []"

definition Hand_init :: "string \<Rightarrow> Card list \<Rightarrow> Hand" where
  "Hand_init col cs =
     \<lparr>colour = col, cards = cs,
      faceCounts = map (\<lambda>(f, cardList). (f, length cardList)) (grouped cs face),
      suitCounts = map (\<lambda>(s, cardList). (s, length cardList)) (grouped cs suit)\<rparr>"

definition descending :: "Hand \<Rightarrow> Card list" where
  "descending h = sorted_reverse (\<lambda>c. Face_value (face c)) (cards h)"

definition facesOccuringTimes :: "Hand \<Rightarrow> nat \<Rightarrow> Face list" where
  "facesOccuringTimes h numTimes =
     sorted_reverse Face_value
       [f \<leftarrow> map fst (faceCounts h). map_of (faceCounts h) f = Some numTimes]"

definition suitsOccuringTimes :: "Hand \<Rightarrow> nat \<Rightarrow> Suit list" where
  "suitsOccuringTimes h numTimes =
     [s \<leftarrow> map fst (suitCounts h). map_of (suitCounts h) s = Some numTimes]"

definition Hand_pair :: "Hand \<Rightarrow> Face option \<times> Hand" where
  "Hand_pair h =
     (case facesOccuringTimes h 2 of
        f0 # _ \<Rightarrow> (Some f0, Hand_init (colour h) (pyset [card \<leftarrow> cards h. face card \<noteq> f0]))
      | [] \<Rightarrow> (None, h))"

definition Hand_pairs :: "Hand \<Rightarrow> Face option \<times> Face option \<times> Hand" where
  "Hand_pairs h =
     (case facesOccuringTimes h 2 of
        f0 # f1 # _ \<Rightarrow>
          (Some f0, Some f1,
           Hand_init (colour h) (pyset [card \<leftarrow> cards h. face card \<notin> set [f0, f1]]))
      | _ \<Rightarrow> (None, None, h))"

definition Hand_triplet :: "Hand \<Rightarrow> Face option \<times> Hand" where
  "Hand_triplet h =
     (case facesOccuringTimes h 3 of
        f0 # _ \<Rightarrow> (Some f0, Hand_init (colour h) (pyset [card \<leftarrow> cards h. face card \<noteq> f0]))
      | [] \<Rightarrow> (None, h))"

text \<open>
  \<open>straight\<close> reads the descending face values by index inside a chain of \<open>and\<close>: the chain
  stops at the first comparison that is false, and an index past the end of the list raises
  \<open>IndexError\<close> when the chain reaches it. A function that ends without \<open>return\<close> returns
  \<open>None\<close>.
\<close>

definition consecutive :: "int list \<Rightarrow> nat \<Rightarrow> error + bool" where
  "consecutive vs i = ebind (idx vs i) (\<lambda>a. ebind (idx vs (i + 1)) (\<lambda>b. Inr (a - 1 = b)))"

definition Hand_straight :: "Hand \<Rightarrow> error + Face option" where
  "Hand_straight h =
     (let descendingFaceValues = map (\<lambda>card. Face_value (face card)) (descending h) in
      ebind (consecutive descendingFaceValues 0) (\<lambda>b0. if \<not> b0 then Inr None else
      ebind (consecutive descendingFaceValues 1) (\<lambda>b1. if \<not> b1 then Inr None else
      ebind (consecutive descendingFaceValues 2) (\<lambda>b2. if \<not> b2 then Inr None else
      ebind (consecutive descendingFaceValues 3) (\<lambda>b3. if \<not> b3 then Inr None else
      ebind (idx (descending h) 0) (\<lambda>c. Inr (Some (face c))))))))"

definition isFlush :: "Hand \<Rightarrow> Suit list" where
  "isFlush h = suitsOccuringTimes h 5"

definition Hand_fullHouse :: "Hand \<Rightarrow> Face option" where
  "Hand_fullHouse h =
     (case Hand_triplet h of
        (Some triplet, remainingHand) \<Rightarrow>
          (case Hand_pair remainingHand of
             (Some pair, remainingHand') \<Rightarrow> Some triplet
           | (None, remainingHand') \<Rightarrow> None)
      | (None, remainingHand) \<Rightarrow> None)"

definition Hand_quartet :: "Hand \<Rightarrow> Face option \<times> Hand" where
  "Hand_quartet h =
     (case facesOccuringTimes h 4 of
        f0 # _ \<Rightarrow> (Some f0, Hand_init (colour h) (pyset [card \<leftarrow> cards h. face card \<noteq> f0]))
      | [] \<Rightarrow> (None, h))"

subsection \<open>Reading a hand from its text\<close>

text \<open>
  \<open>re.match('(.*): (.*)', rep)\<close>: \<open>.\<close> matches every character but the newline and both groups
  are greedy, so the match lies in the first line of \<open>rep\<close>, the first group ends at the last
  \<open>': '\<close> of that line and the second group is the rest of the line. Without a \<open>': '\<close> in the
  first line the match is \<open>None\<close> and \<open>match.group\<close> raises \<open>AttributeError\<close>.
\<close>

fun rsplit_colon :: "string \<Rightarrow> (string \<times> string) option" where
  "rsplit_colon [] = None"
| "rsplit_colon (c # cs) =
     (case rsplit_colon cs of
        Some (a, b) \<Rightarrow> Some (c # a, b)
      | None \<Rightarrow>
          (case cs of
             d # ds \<Rightarrow> if c = CHR '':'' \<and> d = CHR '' '' then Some ([], ds) else None
           | [] \<Rightarrow> None))"

definition re_match :: "string \<Rightarrow> (string \<times> string) option" where
  "re_match rep = rsplit_colon (takeWhile (\<lambda>c. c \<noteq> CHR 0x0A) rep)"

text \<open>\<open>s.split(' ')\<close>: every single space separates, so two spaces in a row give an empty word.\<close>

fun split_space :: "string \<Rightarrow> string list" where
  "split_space [] = [[]]"
| "split_space (c # cs) =
     (if c = CHR '' '' then [] # split_space cs
      else (case split_space cs of w # ws \<Rightarrow> (c # w) # ws | [] \<Rightarrow> [[c]]))"

text \<open>
  The card texts are put into a set of strings, and the cards are read while the program
  iterates over that set, in an order that the program does not fix: the first malformed
  text in that order raises its exception. The model returns, for a text with malformed cards,
  the set of the exceptions that the malformed card texts raise: \<open>fromRep\<close> raises one of
  them, the only one when they all raise the same. The exception of a failed match is the
  only one possible there.
\<close>

definition raised :: "(error + 'a) list \<Rightarrow> error list" where
  "raised rs = concat (map (\<lambda>r. case r of Inl e \<Rightarrow> [e] | Inr x \<Rightarrow> []) rs)"

definition read_values :: "(error + 'a) list \<Rightarrow> 'a list" where
  "read_values rs = concat (map (\<lambda>r. case r of Inl e \<Rightarrow> [] | Inr x \<Rightarrow> [x]) rs)"

definition Hand_fromRep :: "string \<Rightarrow> error set + Hand" where
  "Hand_fromRep rep =
     (case re_match rep of
        None \<Rightarrow> Inl {AttributeError}
      | Some (col, cardtext) \<Rightarrow>
          (let cardreps = pyset (split_space cardtext);
               read = map Card_fromRep cardreps
           in if raised read = [] then Inr (Hand_init col (pyset (read_values read)))
              else Inl (set (raised read))))"

section \<open>Results and comparison primitives\<close>

record Result =
  outcome :: string
  winningColour :: "string option"
  reason :: "string option"

definition Result_init :: "string \<Rightarrow> string option \<Rightarrow> string option \<Rightarrow> Result" where
  "Result_init oc wc r = \<lparr>outcome = oc, winningColour = wc, reason = r\<rparr>"

definition isDraw :: "Result \<Rightarrow> bool" where
  "isDraw r = (outcome r = ''draw'')"

definition draw :: Result where
  "draw = Result_init ''draw'' None None"

text \<open>
  \<open>face1 > face2\<close> on two \<open>Face\<close> objects is \<open>face2.__lt__(face1)\<close>, the reflected comparison;
  when one of the two is \<open>None\<close> no comparison applies and Python raises \<open>TypeError\<close>.
\<close>

definition compareFaces ::
  "Face option \<Rightarrow> Face option \<Rightarrow> Hand \<Rightarrow> Hand \<Rightarrow> string \<Rightarrow> error + Result" where
  "compareFaces face1 face2 hand1 hand2 rsn =
     (case (face1, face2) of
        (Some f1, Some f2) \<Rightarrow>
          if Face_value f2 < Face_value f1
            then Inr (Result_init ''win'' (Some (colour hand1))
                        (Some (rsn @ '': '' @ Face_str f1 @ '' over '' @ Face_str f2)))
          else if Face_value f1 < Face_value f2
            then Inr (Result_init ''win'' (Some (colour hand2))
                        (Some (rsn @ '': '' @ Face_str f2 @ '' over '' @ Face_str f1)))
          else Inr draw
      | _ \<Rightarrow> Inl TypeError)"

text \<open>
  The two first arguments of \<open>neitherOrOnlyOne\<close> are only tested for truth: a \<open>Face\<close> is true,
  \<open>None\<close> is false, a list is true when it is not empty. The callers pass that truth value.
  The result \<open>None\<close> is the "category not applicable" value.
\<close>

definition neitherOrOnlyOne :: "bool \<Rightarrow> bool \<Rightarrow> Hand \<Rightarrow> Hand \<Rightarrow> string \<Rightarrow> Result option" where
  "neitherOrOnlyOne appliesTo1 appliesTo2 hand1 hand2 rsn =
     (if \<not> appliesTo1 \<and> \<not> appliesTo2 then None
      else if appliesTo1 \<and> \<not> appliesTo2
        then Some (Result_init ''win'' (Some (colour hand1)) (Some rsn))
      else if \<not> appliesTo1 \<and> appliesTo2
        then Some (Result_init ''win'' (Some (colour hand2)) (Some rsn))
      else Some draw)"

fun deepComparison :: "Hand \<Rightarrow> Hand \<Rightarrow> (Card \<times> Card) list \<Rightarrow> string \<Rightarrow> error + Result" where
  "deepComparison hand1 hand2 ((highestCard1, highestCard2) # rest) rsn =
     ebind (compareFaces (Some (face highestCard1)) (Some (face highestCard2)) hand1 hand2 rsn)
       (\<lambda>result. if isDraw result then deepComparison hand1 hand2 rest rsn else Inr result)"
| "deepComparison hand1 hand2 [] rsn = Inr draw"

section \<open>Category rankers\<close>

text \<open>
  Every ranker returns \<open>Inl e\<close> when it raises, \<open>Inr None\<close> for "not applicable" and
  \<open>Inr (Some result)\<close> for a result. \<open>if not result: return result\<close> returns the \<open>None\<close>
  (a \<open>Result\<close> object is always true).
\<close>

definition highCard :: "Hand \<Rightarrow> Hand \<Rightarrow> string \<Rightarrow> error + Result option" where
  "highCard hand1 hand2 rsn =
     ebind (deepComparison hand1 hand2 (zip (descending hand1) (descending hand2)) rsn)
       (\<lambda>result. Inr (Some result))"

definition twoOfAKind :: "Hand \<Rightarrow> Hand \<Rightarrow> string \<Rightarrow> error + Result option" where
  "twoOfAKind hand1 hand2 rsn =
     (case (Hand_pair hand1, Hand_pair hand2) of
        ((pairFace1, remainingHand1), (pairFace2, remainingHand2)) \<Rightarrow>
          (case neitherOrOnlyOne (pairFace1 \<noteq> None) (pairFace2 \<noteq> None) hand1 hand2 rsn of
             None \<Rightarrow> Inr None
           | Some result \<Rightarrow>
               if isDraw result then
                 ebind (compareFaces pairFace1 pairFace2 hand1 hand2 rsn) (\<lambda>result.
                   if isDraw result then highCard remainingHand1 remainingHand2 rsn
                   else Inr (Some result))
               else Inr (Some result)))"

definition twoPairs :: "Hand \<Rightarrow> Hand \<Rightarrow> string \<Rightarrow> error + Result option" where
  "twoPairs hand1 hand2 rsn =
     (case (Hand_pairs hand1, Hand_pairs hand2) of
        ((highPairFace1, lowPairFace1, remainingHand1),
         (highPairFace2, lowPairFace2, remainingHand2)) \<Rightarrow>
          (case neitherOrOnlyOne (highPairFace1 \<noteq> None \<and> lowPairFace1 \<noteq> None)
                  (highPairFace2 \<noteq> None \<and> lowPairFace2 \<noteq> None) hand1 hand2 rsn of
             None \<Rightarrow> Inr None
           | Some result \<Rightarrow>
               if isDraw result then
                 ebind (compareFaces highPairFace1 highPairFace2 hand1 hand2 rsn) (\<lambda>result.
                   if isDraw result then
                     ebind (compareFaces lowPairFace1 lowPairFace2 hand1 hand2 rsn) (\<lambda>result.
                       if isDraw result then highCard remainingHand1 remainingHand2 rsn
                       else Inr (Some result))
                   else Inr (Some result))
               else Inr (Some result)))"

definition threeOfAKind :: "Hand \<Rightarrow> Hand \<Rightarrow> string \<Rightarrow> error + Result option" where
  "threeOfAKind hand1 hand2 rsn =
     (case (Hand_triplet hand1, Hand_triplet hand2) of
        ((tripletFace1, remainingHand1), (tripletFace2, remainingHand2)) \<Rightarrow>
          (case neitherOrOnlyOne (tripletFace1 \<noteq> None) (tripletFace2 \<noteq> None) hand1 hand2 rsn of
             None \<Rightarrow> Inr None
           | Some result \<Rightarrow>
               if isDraw result then
                 ebind (compareFaces tripletFace1 tripletFace2 hand1 hand2 rsn) (\<lambda>result.
                   if isDraw result then Inl InvalidCardDeck else Inr (Some result))
               else Inr (Some result)))"

definition straight :: "Hand \<Rightarrow> Hand \<Rightarrow> string \<Rightarrow> error + Result option" where
  "straight hand1 hand2 rsn =
     ebind (Hand_straight hand1) (\<lambda>straightFace1.
     ebind (Hand_straight hand2) (\<lambda>straightFace2.
       (case neitherOrOnlyOne (straightFace1 \<noteq> None) (straightFace2 \<noteq> None) hand1 hand2 rsn of
          None \<Rightarrow> Inr None
        | Some result \<Rightarrow>
            if isDraw result then
              ebind (compareFaces straightFace1 straightFace2 hand1 hand2 rsn) (\<lambda>result.
                Inr (Some result))
            else Inr (Some result))))"

definition flush :: "Hand \<Rightarrow> Hand \<Rightarrow> string \<Rightarrow> error + Result option" where
  "flush hand1 hand2 rsn =
     (case neitherOrOnlyOne (isFlush hand1 \<noteq> []) (isFlush hand2 \<noteq> []) hand1 hand2 rsn of
        None \<Rightarrow> Inr None
      | Some result \<Rightarrow>
          if isDraw result then highCard hand1 hand2 rsn else Inr (Some result))"

definition fullHouse :: "Hand \<Rightarrow> Hand \<Rightarrow> string \<Rightarrow> error + Result option" where
  "fullHouse hand1 hand2 rsn =
     (case (Hand_fullHouse hand1, Hand_fullHouse hand2) of
        (tripletFace1, tripletFace2) \<Rightarrow>
          (case neitherOrOnlyOne (tripletFace1 \<noteq> None) (tripletFace2 \<noteq> None) hand1 hand2 rsn of
             None \<Rightarrow> Inr None
           | Some result \<Rightarrow>
               if isDraw result then
                 ebind (compareFaces tripletFace1 tripletFace2 hand1 hand2 rsn) (\<lambda>result.
                   if isDraw result then Inl InvalidCardDeck else Inr (Some result))
               else Inr (Some result)))"

definition fourOfAKind :: "Hand \<Rightarrow> Hand \<Rightarrow> string \<Rightarrow> error + Result option" where
  "fourOfAKind hand1 hand2 rsn =
     (case (Hand_quartet hand1, Hand_quartet hand2) of
        ((quartetFace1, remainingHand1), (quartetFace2, remainingHand2)) \<Rightarrow>
          (case neitherOrOnlyOne (quartetFace1 \<noteq> None) (quartetFace2 \<noteq> None) hand1 hand2 rsn of
             None \<Rightarrow> Inr None
           | Some result \<Rightarrow>
               if isDraw result then
                 ebind (compareFaces quartetFace1 quartetFace2 hand1 hand2 rsn) (\<lambda>result.
                   if isDraw result then Inl InvalidCardDeck else Inr (Some result))
               else Inr (Some result)))"

text \<open>
  \<open>hand.straight() and hand.isFlush()\<close> evaluates \<open>isFlush\<close> only when \<open>straight\<close> returned a
  face; the value is true when the straight is a face and the flush list is not empty.
\<close>

definition straight_and_flush :: "Hand \<Rightarrow> error + bool" where
  "straight_and_flush h =
     ebind (Hand_straight h) (\<lambda>s. Inr (case s of None \<Rightarrow> False | Some f \<Rightarrow> isFlush h \<noteq> []))"

definition straightFlush :: "Hand \<Rightarrow> Hand \<Rightarrow> string \<Rightarrow> error + Result option" where
  "straightFlush hand1 hand2 rsn =
     ebind (straight_and_flush hand1) (\<lambda>appliesTo1.
     ebind (straight_and_flush hand2) (\<lambda>appliesTo2.
       (case neitherOrOnlyOne appliesTo1 appliesTo2 hand1 hand2 rsn of
          None \<Rightarrow> Inr None
        | Some result \<Rightarrow>
            if isDraw result then highCard hand1 hand2 rsn else Inr (Some result))))"

section \<open>Rank orchestrator\<close>

text \<open>
  The loop of \<open>rank\<close> over the list of categories, each called with its default reason.
  A raise of a category leaves \<open>rank\<close>; the first result that is not \<open>None\<close> is returned;
  a loop that ends returns \<open>None\<close>.
\<close>

definition categories :: "(Hand \<Rightarrow> Hand \<Rightarrow> error + Result option) list" where
  "categories =
     [\<lambda>h1 h2. straightFlush h1 h2 ''Straight Flush'',
      \<lambda>h1 h2. fourOfAKind h1 h2 ''Four of a Kind'',
      \<lambda>h1 h2. fullHouse h1 h2 ''Full House'',
      \<lambda>h1 h2. flush h1 h2 ''Flush'',
      \<lambda>h1 h2. straight h1 h2 ''Straight'',
      \<lambda>h1 h2. threeOfAKind h1 h2 ''Three of a Kind'',
      \<lambda>h1 h2. twoPairs h1 h2 ''Two Pairs'',
      \<lambda>h1 h2. twoOfAKind h1 h2 ''Two of a Kind'',
      \<lambda>h1 h2. highCard h1 h2 ''High Card'']"

fun rank_loop ::
  "(Hand \<Rightarrow> Hand \<Rightarrow> error + Result option) list \<Rightarrow> Hand \<Rightarrow> Hand \<Rightarrow> error + Result option" where
  "rank_loop [] hand1 hand2 = Inr None"
| "rank_loop (category # rest) hand1 hand2 =
     (case category hand1 hand2 of
        Inl e \<Rightarrow> Inl e
      | Inr (Some result) \<Rightarrow> Inr (Some result)
      | Inr None \<Rightarrow> rank_loop rest hand1 hand2)"

definition rank :: "Hand \<Rightarrow> Hand \<Rightarrow> error + Result option" where
  "rank hand1 hand2 = rank_loop categories hand1 hand2"

section \<open>Vocabulary of the properties\<close>

text \<open>
  The number of cards of a hand that show a given face, and a given suit. A hand is valid
  when it is what the constructor builds from a set of exactly five cards (the cards differ
  pairwise in face or suit).
\<close>

definition count_face :: "Card list \<Rightarrow> Face \<Rightarrow> nat" where
  "count_face cs f = length [c \<leftarrow> cs. face c = f]"

definition count_suit :: "Card list \<Rightarrow> Suit \<Rightarrow> nat" where
  "count_suit cs s = length [c \<leftarrow> cs. suit c = s]"

definition valid_hand :: "Hand \<Rightarrow> bool" where
  "valid_hand h \<longleftrightarrow>
     h = Hand_init (colour h) (cards h) \<and> distinct (cards h) \<and> length (cards h) = 5"

text \<open>The Win of a hand with a reason, as \<open>neitherOrOnlyOne\<close> and \<open>compareFaces\<close> build it.\<close>

definition win :: "Hand \<Rightarrow> string \<Rightarrow> Result" where
  "win h rsn = Result_init ''win'' (Some (colour h)) (Some rsn)"

text \<open>
  The nine categories in the order \<open>rank\<close> tries them. A hand qualifies for a category when
  the category's ranker finds it applicable to that hand: the truth value the ranker passes to
  \<open>neitherOrOnlyOne\<close> for it. The best category of a hand is the first one it qualifies for.
\<close>

datatype Category = StraightFlush | FourOfAKind | FullHouse | Flush | Straight
  | ThreeOfAKind | TwoPairs | TwoOfAKind | HighCard

fun qualifies :: "Category \<Rightarrow> Hand \<Rightarrow> bool" where
  "qualifies StraightFlush h = (straight_and_flush h = Inr True)"
| "qualifies FourOfAKind h = (fst (Hand_quartet h) \<noteq> None)"
| "qualifies FullHouse h = (Hand_fullHouse h \<noteq> None)"
| "qualifies Flush h = (isFlush h \<noteq> [])"
| "qualifies Straight h = (case Hand_straight h of Inr (Some f) \<Rightarrow> True | _ \<Rightarrow> False)"
| "qualifies ThreeOfAKind h = (fst (Hand_triplet h) \<noteq> None)"
| "qualifies TwoPairs h = (fst (Hand_pairs h) \<noteq> None \<and> fst (snd (Hand_pairs h)) \<noteq> None)"
| "qualifies TwoOfAKind h = (fst (Hand_pair h) \<noteq> None)"
| "qualifies HighCard h = True"

fun precedence :: "Category \<Rightarrow> nat" where
  "precedence StraightFlush = 0"
| "precedence FourOfAKind = 1"
| "precedence FullHouse = 2"
| "precedence Flush = 3"
| "precedence Straight = 4"
| "precedence ThreeOfAKind = 5"
| "precedence TwoPairs = 6"
| "precedence TwoOfAKind = 7"
| "precedence HighCard = 8"

fun category_name :: "Category \<Rightarrow> string" where
  "category_name StraightFlush = ''Straight Flush''"
| "category_name FourOfAKind = ''Four of a Kind''"
| "category_name FullHouse = ''Full House''"
| "category_name Flush = ''Flush''"
| "category_name Straight = ''Straight''"
| "category_name ThreeOfAKind = ''Three of a Kind''"
| "category_name TwoPairs = ''Two Pairs''"
| "category_name TwoOfAKind = ''Two of a Kind''"
| "category_name HighCard = ''High Card''"

definition best_category :: "Hand \<Rightarrow> Category" where
  "best_category h =
     (if qualifies StraightFlush h then StraightFlush
      else if qualifies FourOfAKind h then FourOfAKind
      else if qualifies FullHouse h then FullHouse
      else if qualifies Flush h then Flush
      else if qualifies Straight h then Straight
      else if qualifies ThreeOfAKind h then ThreeOfAKind
      else if qualifies TwoPairs h then TwoPairs
      else if qualifies TwoOfAKind h then TwoOfAKind
      else HighCard)"

text \<open>A result of ranking the two hands: a Draw, or a Win that names one of the two owners.\<close>

definition win_or_draw :: "Hand \<Rightarrow> Hand \<Rightarrow> Result \<Rightarrow> bool" where
  "win_or_draw h1 h2 r \<longleftrightarrow>
     r = draw \<or>
     (outcome r = ''win'' \<and> reason r \<noteq> None
      \<and> (winningColour r = Some (colour h1) \<or> winningColour r = Some (colour h2)))"

text \<open>
  What a ranker or \<open>rank\<close> may yield for two hands: \<open>returned\<close> is a result (a Win or a
  Draw); \<open>ranked\<close> is a result or the raise of \<open>InvalidCardDeck\<close>. Neither holds of the
  "not applicable" value nor of another exception.
\<close>

definition ranked :: "Hand \<Rightarrow> Hand \<Rightarrow> error + Result option \<Rightarrow> bool" where
  "ranked h1 h2 x =
     (case x of Inl e \<Rightarrow> e = InvalidCardDeck | Inr None \<Rightarrow> False
      | Inr (Some r) \<Rightarrow> win_or_draw h1 h2 r)"

definition returned :: "Hand \<Rightarrow> Hand \<Rightarrow> error + Result option \<Rightarrow> bool" where
  "returned h1 h2 x =
     (case x of Inl e \<Rightarrow> False | Inr None \<Rightarrow> False | Inr (Some r) \<Rightarrow> win_or_draw h1 h2 r)"

text \<open>
  The top face of a hand is the face of its first card in descending order. The comparison
  of two faces, as a result: the hand with the higher face wins, with the reason extended by
  the two faces, the winner's first; equal faces draw.
\<close>

definition top_face :: "Hand \<Rightarrow> Face option" where
  "top_face h = (case descending h of [] \<Rightarrow> None | c # _ \<Rightarrow> Some (face c))"

definition face_comparison :: "Face \<Rightarrow> Face \<Rightarrow> Hand \<Rightarrow> Hand \<Rightarrow> string \<Rightarrow> Result" where
  "face_comparison f1 f2 h1 h2 rsn =
     (if Face_value f2 < Face_value f1
        then win h1 (rsn @ '': '' @ Face_str f1 @ '' over '' @ Face_str f2)
      else if Face_value f1 < Face_value f2
        then win h2 (rsn @ '': '' @ Face_str f2 @ '' over '' @ Face_str f1)
      else draw)"

subsection \<open>Sample hands\<close>

text \<open>
  Hands of the test table of the program and variations of them, as the constructor builds
  them, for the concrete instances of the properties. \<open>white_aces\<close> and \<open>four_run\<close>
  have four cards: they are read from texts that repeat a card.
\<close>

definition black_2H_6H :: Hand where
  "black_2H_6H =
     Hand_init ''Black''
       [Card Two HEARTS, Card Three HEARTS, Card Four HEARTS, Card Five HEARTS, Card Six HEARTS]"

definition white_aces :: Hand where
  "white_aces =
     Hand_init ''White'' [Card Ace CLUBS, Card Ace HEARTS, Card Ace SPADES, Card King HEARTS]"

definition four_run :: Hand where
  "four_run =
     Hand_init ''Black'' [Card Six HEARTS, Card Five HEARTS, Card Four HEARTS, Card Three HEARTS]"

definition flush_8TA :: Hand where
  "flush_8TA =
     Hand_init ''White''
       [Card Eight CLUBS, Card Ten CLUBS, Card Five CLUBS, Card Six CLUBS, Card Ace CLUBS]"

definition straight_26 :: Hand where
  "straight_26 =
     Hand_init ''Black''
       [Card Two HEARTS, Card Three CLUBS, Card Four HEARTS, Card Five DIAMONDS,
        Card Six DIAMONDS]"

definition two_pairs_K3 :: Hand where
  "two_pairs_K3 =
     Hand_init ''Black''
       [Card King DIAMONDS, Card King SPADES, Card Three DIAMONDS, Card Three SPADES,
        Card Six DIAMONDS]"

definition two_pairs_KQ :: Hand where
  "two_pairs_KQ =
     Hand_init ''White''
       [Card Queen CLUBS, Card Queen HEARTS, Card King CLUBS, Card King HEARTS,
        Card Ace CLUBS]"

definition pair_of_twos :: Hand where
  "pair_of_twos =
     Hand_init ''Black''
       [Card Two DIAMONDS, Card Two SPADES, Card Four DIAMONDS, Card Five DIAMONDS,
        Card Six DIAMONDS]"

definition straight_flush_26 :: Hand where
  "straight_flush_26 =
     Hand_init ''Black''
       [Card Two DIAMONDS, Card Three DIAMONDS, Card Four DIAMONDS, Card Five DIAMONDS,
        Card Six DIAMONDS]"

definition straight_flush_37 :: Hand where
  "straight_flush_37 =
     Hand_init ''White''
       [Card Three HEARTS, Card Four HEARTS, Card Five HEARTS, Card Six HEARTS,
        Card Seven HEARTS]"

definition full_house_2_5 :: Hand where
  "full_house_2_5 =
     Hand_init ''Black''
       [Card Two DIAMONDS, Card Two SPADES, Card Two HEARTS, Card Five DIAMONDS,
        Card Five SPADES]"

definition triplet_2_78 :: Hand where
  "triplet_2_78 =
     Hand_init ''White''
       [Card Two DIAMONDS, Card Two SPADES, Card Two CLUBS, Card Seven DIAMONDS,
        Card Eight DIAMONDS]"

definition triplet_2_56 :: Hand where
  "triplet_2_56 =
     Hand_init ''Black''
       [Card Two DIAMONDS, Card Two SPADES, Card Two HEARTS, Card Five DIAMONDS,
        Card Six DIAMONDS]"





section \<open>Basic facts\<close>

lemma ebind_Inr [simp]: "ebind (Inr x) f = f x"
  by (simp add: ebind_def)

lemma ebind_Inl [simp]: "ebind (Inl e) f = Inl e"
  by (simp add: ebind_def)

lemma Face_value_inj: "Face_value f = Face_value g \<Longrightarrow> f = g"
  by (cases f; cases g; simp)

lemma Face_value_eq_iff [simp]: "Face_value f = Face_value g \<longleftrightarrow> f = g"
  using Face_value_inj by auto

lemma length_five: "length xs = 5 \<Longrightarrow> \<exists>a b c d e. xs = [a, b, c, d, e]"
  by (auto simp: length_Suc_conv eval_nat_numeral)

lemma length_descending [simp]: "length (descending h) = length (cards h)"
  by (simp add: descending_def sorted_reverse_def)

lemma set_descending [simp]: "set (descending h) = set (cards h)"
  by (simp add: descending_def sorted_reverse_def)

lemma Hand_straight_list:
  "descending h = [a, b, c, d, e] \<Longrightarrow>
   Hand_straight h =
     Inr (if Face_value (face a) - 1 = Face_value (face b)
           \<and> Face_value (face b) - 1 = Face_value (face c)
           \<and> Face_value (face c) - 1 = Face_value (face d)
           \<and> Face_value (face d) - 1 = Face_value (face e)
          then Some (face a) else None)"
  by (simp add: Hand_straight_def consecutive_def idx_def Let_def)

lemma Hand_straight_total: "length (cards h) = 5 \<Longrightarrow> \<exists>r. Hand_straight h = Inr r"
proof -
  assume "length (cards h) = 5"
  then have "length (descending h) = 5" by simp
  then obtain a b c d e where "descending h = [a, b, c, d, e]"
    using length_five by blast
  then show ?thesis by (simp add: Hand_straight_list)
qed

subsection \<open>Sets as lists without repetition\<close>

lemma set_add_distinct: "distinct s \<Longrightarrow> distinct (set_add x s)"
  by (simp add: set_add_def)

lemma set_set_add [simp]: "set (set_add x s) = insert x (set s)"
  by (auto simp: set_add_def)

lemma pyset_snoc: "pyset (xs @ [x]) = set_add x (pyset xs)"
  by (simp add: pyset_def)

lemma distinct_pyset [simp]: "distinct (pyset xs)"
  by (induction xs rule: rev_induct) (simp_all add: pyset_snoc set_add_distinct, simp add: pyset_def)

lemma set_pyset [simp]: "set (pyset xs) = set xs"
  by (induction xs rule: rev_induct) (simp_all add: pyset_snoc, simp add: pyset_def)

lemma pyset_distinct: "distinct xs \<Longrightarrow> pyset xs = xs"
proof (induction xs rule: rev_induct)
  case Nil
  show ?case by (simp add: pyset_def)
next
  case (snoc x xs)
  then show ?case by (simp add: pyset_snoc set_add_def)
qed

subsection \<open>Grouping and the cached counts\<close>

lemma grouped_Nil [simp]: "grouped [] fun = []"
  by (simp add: grouped_def)

lemma grouped_snoc: "grouped (cs @ [c]) fun = grouped_append (fun c) c (grouped cs fun)"
  by (simp add: grouped_def)

lemma map_of_grouped_append:
  "map_of (grouped_append k c g) k' =
     (if k' = k then Some ((case map_of g k of None \<Rightarrow> [] | Some l \<Rightarrow> l) @ [c]) else map_of g k')"
  by (induction k c g rule: grouped_append.induct) auto

lemma keys_grouped_append:
  "map fst (grouped_append k c g) = (if k \<in> set (map fst g) then map fst g else map fst g @ [k])"
  by (induction k c g rule: grouped_append.induct) auto

lemma map_of_grouped:
  "map_of (grouped cs fun) k =
     (if [c \<leftarrow> cs. fun c = k] = [] then None else Some [c \<leftarrow> cs. fun c = k])"
proof (induction cs rule: rev_induct)
  case Nil
  show ?case by simp
next
  case (snoc c cs)
  then show ?case by (auto simp: grouped_snoc map_of_grouped_append)
qed

lemma keys_grouped: "fst ` set (grouped cs fun) = fun ` set cs"
proof -
  have "set (map fst (grouped cs fun)) = fun ` set cs"
    by (induction cs rule: rev_induct) (auto simp: grouped_snoc keys_grouped_append)
  then show ?thesis by simp
qed

lemma distinct_keys_grouped: "distinct (map fst (grouped cs fun))"
  by (induction cs rule: rev_induct) (auto simp: grouped_snoc keys_grouped_append)

lemma map_of_counts:
  "map_of (map (\<lambda>(k, cardList). (k, length cardList)) (grouped cs fun)) k =
     (if [c \<leftarrow> cs. fun c = k] = [] then None else Some (length [c \<leftarrow> cs. fun c = k]))"
  by (simp add: map_of_map map_of_grouped)

lemma keys_faceCounts:
  "map fst (faceCounts (Hand_init col cs)) = map fst (grouped cs face)"
  by (simp add: Hand_init_def case_prod_unfold comp_def)

lemma keys_suitCounts:
  "map fst (suitCounts (Hand_init col cs)) = map fst (grouped cs suit)"
  by (simp add: Hand_init_def case_prod_unfold comp_def)

lemma map_of_faceCounts:
  "map_of (faceCounts (Hand_init col cs)) f =
     (if count_face cs f = 0 then None else Some (count_face cs f))"
  by (simp add: Hand_init_def map_of_counts count_face_def)

lemma map_of_suitCounts:
  "map_of (suitCounts (Hand_init col cs)) s =
     (if count_suit cs s = 0 then None else Some (count_suit cs s))"
  by (simp add: Hand_init_def map_of_counts count_suit_def)

lemma set_sorted_reverse [simp]: "set (sorted_reverse key xs) = set xs"
  by (simp add: sorted_reverse_def)

lemma distinct_sorted_reverse [simp]: "distinct (sorted_reverse key xs) = distinct xs"
  by (simp add: sorted_reverse_def)

lemma length_sorted_reverse [simp]: "length (sorted_reverse key xs) = length xs"
  by (simp add: sorted_reverse_def)

lemma sorted_sorted_reverse: "sorted (rev (map key (sorted_reverse key xs)))"
  by (simp add: sorted_reverse_def rev_map [symmetric])

lemma count_face_pos: "0 < count_face cs f \<longleftrightarrow> f \<in> face ` set cs"
  by (auto simp: count_face_def filter_empty_conv)

lemma count_suit_pos: "0 < count_suit cs s \<longleftrightarrow> s \<in> suit ` set cs"
  by (auto simp: count_suit_def filter_empty_conv)

lemma set_facesOccuringTimes:
  "0 < n \<Longrightarrow> set (facesOccuringTimes (Hand_init col cs) n) = {f. count_face cs f = n}"
  using count_face_pos [of cs]
  by (auto simp: facesOccuringTimes_def map_of_faceCounts keys_faceCounts keys_grouped
      split: if_splits)

lemma distinct_facesOccuringTimes: "distinct (facesOccuringTimes (Hand_init col cs) n)"
  by (simp add: facesOccuringTimes_def keys_faceCounts distinct_keys_grouped)

lemma set_suitsOccuringTimes:
  "0 < n \<Longrightarrow> set (suitsOccuringTimes (Hand_init col cs) n) = {s. count_suit cs s = n}"
  using count_suit_pos [of cs]
  by (auto simp: suitsOccuringTimes_def map_of_suitCounts keys_suitCounts keys_grouped
      split: if_splits)

lemma isDraw_draw [simp]: "isDraw draw"
  by (simp add: isDraw_def draw_def Result_init_def)

lemma isDraw_win [simp]: "\<not> isDraw (Result_init ''win'' c r)"
  by (simp add: isDraw_def Result_init_def)

lemma compareFaces_same [simp]: "compareFaces (Some f) (Some f) h1 h2 rsn = Inr draw"
  by (simp add: compareFaces_def)

lemma deepComparison_same_faces:
  "map face xs = map face ys \<Longrightarrow> deepComparison h1 h2 (zip xs ys) rsn = Inr draw"
proof (induction xs arbitrary: ys)
  case Nil
  then show ?case by simp
next
  case (Cons x xs)
  then obtain y ys' where ys: "ys = y # ys'" "face x = face y" "map face xs = map face ys'"
    by (cases ys) auto
  with Cons.IH [of ys'] show ?case by simp
qed

subsection \<open>The gate of every ranker\<close>

lemma straight_and_flush_five:
  "length (cards h) = 5 \<Longrightarrow> straight_and_flush h = Inr (qualifies StraightFlush h)"
  using Hand_straight_total [of h]
  by (auto simp: straight_and_flush_def split: option.splits)

lemma Hand_straight_five:
  "length (cards h) = 5 \<Longrightarrow>
   Hand_straight h = Inr None \<and> \<not> qualifies Straight h
   \<or> (\<exists>f. Hand_straight h = Inr (Some f) \<and> qualifies Straight h)"
  using Hand_straight_total [of h]
  by (auto split: option.splits)

lemma straightFlush_gate:
  "length (cards h1) = 5 \<Longrightarrow> length (cards h2) = 5 \<Longrightarrow>
   straightFlush h1 h2 rsn =
     (if qualifies StraightFlush h1
      then if qualifies StraightFlush h2 then highCard h1 h2 rsn else Inr (Some (win h1 rsn))
      else if qualifies StraightFlush h2 then Inr (Some (win h2 rsn)) else Inr None)"
  by (simp add: straightFlush_def straight_and_flush_five neitherOrOnlyOne_def win_def
      del: qualifies.simps)

lemma fourOfAKind_gate:
  "fourOfAKind h1 h2 rsn =
     (if qualifies FourOfAKind h1
      then if qualifies FourOfAKind h2
        then ebind (compareFaces (fst (Hand_quartet h1)) (fst (Hand_quartet h2)) h1 h2 rsn)
               (\<lambda>result. if isDraw result then Inl InvalidCardDeck else Inr (Some result))
        else Inr (Some (win h1 rsn))
      else if qualifies FourOfAKind h2 then Inr (Some (win h2 rsn)) else Inr None)"
  by (simp add: fourOfAKind_def neitherOrOnlyOne_def win_def case_prod_unfold cong: if_cong)

lemma fullHouse_gate:
  "fullHouse h1 h2 rsn =
     (if qualifies FullHouse h1
      then if qualifies FullHouse h2
        then ebind (compareFaces (Hand_fullHouse h1) (Hand_fullHouse h2) h1 h2 rsn)
               (\<lambda>result. if isDraw result then Inl InvalidCardDeck else Inr (Some result))
        else Inr (Some (win h1 rsn))
      else if qualifies FullHouse h2 then Inr (Some (win h2 rsn)) else Inr None)"
  by (simp add: fullHouse_def neitherOrOnlyOne_def win_def case_prod_unfold cong: if_cong)

lemma flush_gate:
  "flush h1 h2 rsn =
     (if qualifies Flush h1
      then if qualifies Flush h2 then highCard h1 h2 rsn else Inr (Some (win h1 rsn))
      else if qualifies Flush h2 then Inr (Some (win h2 rsn)) else Inr None)"
  by (simp add: flush_def neitherOrOnlyOne_def win_def)

lemma straight_gate:
  "length (cards h1) = 5 \<Longrightarrow> length (cards h2) = 5 \<Longrightarrow>
   straight h1 h2 rsn =
     (if qualifies Straight h1
      then if qualifies Straight h2
        then ebind (Hand_straight h1) (\<lambda>s1. ebind (Hand_straight h2) (\<lambda>s2.
               ebind (compareFaces s1 s2 h1 h2 rsn) (\<lambda>result. Inr (Some result))))
        else Inr (Some (win h1 rsn))
      else if qualifies Straight h2 then Inr (Some (win h2 rsn)) else Inr None)"
  using Hand_straight_five [of h1] Hand_straight_five [of h2]
  by (auto simp: straight_def neitherOrOnlyOne_def win_def simp del: qualifies.simps)

lemma threeOfAKind_gate:
  "threeOfAKind h1 h2 rsn =
     (if qualifies ThreeOfAKind h1
      then if qualifies ThreeOfAKind h2
        then ebind (compareFaces (fst (Hand_triplet h1)) (fst (Hand_triplet h2)) h1 h2 rsn)
               (\<lambda>result. if isDraw result then Inl InvalidCardDeck else Inr (Some result))
        else Inr (Some (win h1 rsn))
      else if qualifies ThreeOfAKind h2 then Inr (Some (win h2 rsn)) else Inr None)"
  by (simp add: threeOfAKind_def neitherOrOnlyOne_def win_def case_prod_unfold cong: if_cong)

lemma twoPairs_gate:
  "twoPairs h1 h2 rsn =
     (if qualifies TwoPairs h1
      then if qualifies TwoPairs h2
        then ebind (compareFaces (fst (Hand_pairs h1)) (fst (Hand_pairs h2)) h1 h2 rsn)
               (\<lambda>result. if isDraw result then
                  ebind (compareFaces (fst (snd (Hand_pairs h1))) (fst (snd (Hand_pairs h2)))
                           h1 h2 rsn)
                    (\<lambda>result. if isDraw result
                       then highCard (snd (snd (Hand_pairs h1))) (snd (snd (Hand_pairs h2))) rsn
                       else Inr (Some result))
                else Inr (Some result))
        else Inr (Some (win h1 rsn))
      else if qualifies TwoPairs h2 then Inr (Some (win h2 rsn)) else Inr None)"
  by (auto simp: twoPairs_def neitherOrOnlyOne_def win_def case_prod_unfold cong: if_cong)

lemma twoOfAKind_gate:
  "twoOfAKind h1 h2 rsn =
     (if qualifies TwoOfAKind h1
      then if qualifies TwoOfAKind h2
        then ebind (compareFaces (fst (Hand_pair h1)) (fst (Hand_pair h2)) h1 h2 rsn)
               (\<lambda>result. if isDraw result
                  then highCard (snd (Hand_pair h1)) (snd (Hand_pair h2)) rsn
                  else Inr (Some result))
        else Inr (Some (win h1 rsn))
      else if qualifies TwoOfAKind h2 then Inr (Some (win h2 rsn)) else Inr None)"
  by (simp add: twoOfAKind_def neitherOrOnlyOne_def win_def case_prod_unfold cong: if_cong)

lemmas gates = straightFlush_gate fourOfAKind_gate fullHouse_gate flush_gate straight_gate
  threeOfAKind_gate twoPairs_gate twoOfAKind_gate

lemma all_Category:
  "(\<forall>d. P d) \<longleftrightarrow>
     P StraightFlush \<and> P FourOfAKind \<and> P FullHouse \<and> P Flush \<and> P Straight
     \<and> P ThreeOfAKind \<and> P TwoPairs \<and> P TwoOfAKind \<and> P HighCard"
  by (metis Category.exhaust)

lemma best_category_le:
  "qualifies d h \<Longrightarrow> precedence (best_category h) \<le> precedence d"
  by (cases d) (simp_all add: best_category_def del: qualifies.simps)

lemma best_category_qualifies: "qualifies (best_category h) h"
  by (simp add: best_category_def del: qualifies.simps) simp

lemma best_category_first:
  "precedence d < precedence (best_category h) \<Longrightarrow> \<not> qualifies d h"
  using best_category_le [of d h] by auto

lemma rank_first:
  assumes len: "length (cards A) = 5" "length (cards B) = 5"
    and k: "qualifies k A" "\<not> qualifies k B" "k \<noteq> HighCard"
    and before: "\<forall>d. precedence d < precedence k \<longrightarrow> \<not> qualifies d A \<and> \<not> qualifies d B"
  shows "rank A B = Inr (Some (win A (category_name k)))"
proof (cases k)
  case StraightFlush
  with k show ?thesis
    by (simp add: rank_def categories_def gates len del: qualifies.simps)
next
  case FourOfAKind
  with k before show ?thesis
    by (simp add: all_Category rank_def categories_def gates len del: qualifies.simps)
next
  case FullHouse
  with k before show ?thesis
    by (simp add: all_Category rank_def categories_def gates len del: qualifies.simps)
next
  case Flush
  with k before show ?thesis
    by (simp add: all_Category rank_def categories_def gates len del: qualifies.simps)
next
  case Straight
  with k before show ?thesis
    by (simp add: all_Category rank_def categories_def gates len del: qualifies.simps)
next
  case ThreeOfAKind
  with k before show ?thesis
    by (simp add: all_Category rank_def categories_def gates len del: qualifies.simps)
next
  case TwoPairs
  with k before show ?thesis
    by (simp add: all_Category rank_def categories_def gates len del: qualifies.simps)
next
  case TwoOfAKind
  with k before show ?thesis
    by (simp add: all_Category rank_def categories_def gates len del: qualifies.simps)
next
  case HighCard
  with k show ?thesis by simp
qed

subsection \<open>Symmetry of the rankers\<close>

lemma compareFaces_sym: "compareFaces f1 f2 h1 h2 rsn = compareFaces f2 f1 h2 h1 rsn"
  by (cases f1; cases f2) (auto simp: compareFaces_def)

lemma deepComparison_sym:
  "deepComparison h1 h2 (zip xs ys) rsn = deepComparison h2 h1 (zip ys xs) rsn"
proof (induction xs arbitrary: ys)
  case Nil
  show ?case by simp
next
  case (Cons x xs)
  show ?case
  proof (cases ys)
    case Nil
    then show ?thesis by simp
  next
    case (Cons y ys')
    have "compareFaces (Some (face x)) (Some (face y)) h1 h2 rsn =
      compareFaces (Some (face y)) (Some (face x)) h2 h1 rsn"
      by (rule compareFaces_sym)
    with Cons Cons.IH [of ys'] show ?thesis by (simp cong: if_cong)
  qed
qed

lemma highCard_sym: "highCard h1 h2 rsn = highCard h2 h1 rsn"
  by (simp add: highCard_def deepComparison_sym [of h1 h2])

lemma straightFlush_sym:
  "length (cards h1) = 5 \<Longrightarrow> length (cards h2) = 5 \<Longrightarrow>
   straightFlush h1 h2 rsn = straightFlush h2 h1 rsn"
  by (simp add: straightFlush_gate highCard_sym [of h1 h2] del: qualifies.simps)

lemma fourOfAKind_sym: "fourOfAKind h1 h2 rsn = fourOfAKind h2 h1 rsn"
  by (simp add: fourOfAKind_gate compareFaces_sym [of _ _ h1 h2] del: qualifies.simps)

lemma fullHouse_sym: "fullHouse h1 h2 rsn = fullHouse h2 h1 rsn"
  by (simp add: fullHouse_gate compareFaces_sym [of _ _ h1 h2] del: qualifies.simps)

lemma flush_sym: "flush h1 h2 rsn = flush h2 h1 rsn"
  by (simp add: flush_gate highCard_sym [of h1 h2] del: qualifies.simps)

lemma straight_sym:
  "length (cards h1) = 5 \<Longrightarrow> length (cards h2) = 5 \<Longrightarrow>
   straight h1 h2 rsn = straight h2 h1 rsn"
  using Hand_straight_five [of h1] Hand_straight_five [of h2]
  by (auto simp: straight_gate compareFaces_sym [of _ _ h1 h2] simp del: qualifies.simps)

lemma threeOfAKind_sym: "threeOfAKind h1 h2 rsn = threeOfAKind h2 h1 rsn"
  by (simp add: threeOfAKind_gate compareFaces_sym [of _ _ h1 h2] del: qualifies.simps)

lemma twoPairs_sym: "twoPairs h1 h2 rsn = twoPairs h2 h1 rsn"
  by (simp add: twoPairs_gate compareFaces_sym [of _ _ h1 h2]
      highCard_sym [of "snd (snd (Hand_pairs h1))"] del: qualifies.simps cong: if_cong)

lemma twoOfAKind_sym: "twoOfAKind h1 h2 rsn = twoOfAKind h2 h1 rsn"
  by (simp add: twoOfAKind_gate compareFaces_sym [of _ _ h1 h2]
      highCard_sym [of "snd (Hand_pair h1)"] del: qualifies.simps cong: if_cong)

subsection \<open>Results of the rankers\<close>

lemma win_or_draw_draw [simp]: "win_or_draw h1 h2 draw"
  by (simp add: win_or_draw_def)

lemma win_or_draw_win [simp]: "win_or_draw h1 h2 (win h1 rsn)" "win_or_draw h1 h2 (win h2 rsn)"
  by (simp_all add: win_or_draw_def win_def Result_init_def)

lemma isDraw_win' [simp]: "\<not> isDraw (win h rsn)"
  by (simp add: win_def)

lemma win_or_draw_colour:
  "colour h1' = colour h1 \<Longrightarrow> colour h2' = colour h2 \<Longrightarrow>
   win_or_draw h1' h2' r = win_or_draw h1 h2 r"
  by (simp add: win_or_draw_def)

lemma compareFaces_Some:
  "\<exists>r. compareFaces (Some f) (Some g) h1 h2 rsn = Inr r \<and> win_or_draw h1 h2 r
       \<and> (isDraw r \<longleftrightarrow> f = g)"
  by (auto simp: compareFaces_def win_or_draw_def Result_init_def isDraw_def draw_def)

lemma deepComparison_result:
  "\<exists>r. deepComparison h1 h2 ps rsn = Inr r \<and> win_or_draw h1 h2 r"
proof (induction ps)
  case Nil
  show ?case by simp
next
  case (Cons p ps)
  obtain c1 c2 where p: "p = (c1, c2)" by (cases p)
  obtain r where r: "compareFaces (Some (face c1)) (Some (face c2)) h1 h2 rsn = Inr r"
    "win_or_draw h1 h2 r"
    using compareFaces_Some by blast
  with Cons p show ?case by simp
qed

lemma highCard_result: "\<exists>r. highCard h1 h2 rsn = Inr (Some r) \<and> win_or_draw h1 h2 r"
  using deepComparison_result [of h1 h2 "zip (descending h1) (descending h2)" rsn]
  by (auto simp: highCard_def)

lemma colour_Hand_init [simp]: "colour (Hand_init col cs) = col"
  by (simp add: Hand_init_def)

lemma cards_Hand_init [simp]: "cards (Hand_init col cs) = cs"
  by (simp add: Hand_init_def)

lemma colour_Hand_pair [simp]: "colour (snd (Hand_pair h)) = colour h"
  by (cases "facesOccuringTimes h 2") (simp_all add: Hand_pair_def)

lemma colour_Hand_pairs [simp]: "colour (snd (snd (Hand_pairs h))) = colour h"
proof (cases "facesOccuringTimes h 2")
  case Nil
  then show ?thesis by (simp add: Hand_pairs_def)
next
  case (Cons f0 fs)
  then show ?thesis by (cases fs) (simp_all add: Hand_pairs_def)
qed

lemma highCard_returned:
  assumes "colour h1' = colour h1" "colour h2' = colour h2"
  shows "returned h1 h2 (highCard h1' h2' rsn)"
proof -
  obtain r where r: "highCard h1' h2' rsn = Inr (Some r)" "win_or_draw h1' h2' r"
    using highCard_result by blast
  from r(2) have "win_or_draw h1 h2 r"
    by (simp only: win_or_draw_colour [OF assms])
  with r(1) show ?thesis by (simp add: returned_def)
qed

lemma returned_ranked: "returned h1 h2 x \<Longrightarrow> ranked h1 h2 x"
  by (auto simp: returned_def ranked_def split: sum.splits option.splits)

lemma or_returned_ranked:
  "x = Inr None \<or> returned h1 h2 x \<Longrightarrow> x = Inr None \<or> ranked h1 h2 x"
  using returned_ranked by blast

lemma returned_win [simp]:
  "returned h1 h2 (Inr (Some (win h1 rsn)))" "returned h1 h2 (Inr (Some (win h2 rsn)))"
  by (simp_all add: returned_def)

lemma not_returned_None [simp]: "\<not> returned h1 h2 (Inr None)" "\<not> ranked h1 h2 (Inr None)"
  by (simp_all add: returned_def ranked_def)

text \<open>The tie-break on a matched face that raises on a draw.\<close>

lemma fatal_tie_ranked:
  "ranked h1 h2 (ebind (compareFaces (Some f) (Some g) h1 h2 rsn)
     (\<lambda>result. if isDraw result then Inl InvalidCardDeck else Inr (Some result)))"
  using compareFaces_Some [of f g h1 h2 rsn] by (auto simp: ranked_def)

lemma fatal_tie_returned:
  "f \<noteq> g \<Longrightarrow> returned h1 h2 (ebind (compareFaces (Some f) (Some g) h1 h2 rsn)
     (\<lambda>result. if isDraw result then Inl InvalidCardDeck else Inr (Some result)))"
  using compareFaces_Some [of f g h1 h2 rsn] by (auto simp: returned_def)

lemma straightFlush_ranked:
  "length (cards h1) = 5 \<Longrightarrow> length (cards h2) = 5 \<Longrightarrow>
   straightFlush h1 h2 rsn = Inr None \<or> returned h1 h2 (straightFlush h1 h2 rsn)"
  by (simp add: straightFlush_gate highCard_returned del: qualifies.simps)

lemma flush_ranked:
  "flush h1 h2 rsn = Inr None \<or> returned h1 h2 (flush h1 h2 rsn)"
  by (simp add: flush_gate highCard_returned del: qualifies.simps)

lemma straight_ranked:
  assumes len: "length (cards h1) = 5" "length (cards h2) = 5"
  shows "straight h1 h2 rsn = Inr None \<or> returned h1 h2 (straight h1 h2 rsn)"
proof (cases "qualifies Straight h1 \<and> qualifies Straight h2")
  case True
  then obtain f g where fg: "Hand_straight h1 = Inr (Some f)" "Hand_straight h2 = Inr (Some g)"
    using Hand_straight_five [OF len(1)] Hand_straight_five [OF len(2)] by auto
  obtain r where r: "compareFaces (Some f) (Some g) h1 h2 rsn = Inr r" "win_or_draw h1 h2 r"
    using compareFaces_Some by blast
  have "returned h1 h2 (straight h1 h2 rsn)"
    using True fg r by (simp add: straight_gate len returned_def del: qualifies.simps)
  then show ?thesis ..
next
  case False
  then show ?thesis
    by (auto simp: straight_gate len simp del: qualifies.simps)
qed

lemma twoOfAKind_ranked:
  "twoOfAKind h1 h2 rsn = Inr None \<or> returned h1 h2 (twoOfAKind h1 h2 rsn)"
proof (cases "qualifies TwoOfAKind h1 \<and> qualifies TwoOfAKind h2")
  case True
  then obtain f g where fg: "fst (Hand_pair h1) = Some f" "fst (Hand_pair h2) = Some g"
    by auto
  obtain r where r: "compareFaces (Some f) (Some g) h1 h2 rsn = Inr r" "win_or_draw h1 h2 r"
    using compareFaces_Some by blast
  have "returned h1 h2 (twoOfAKind h1 h2 rsn)"
    using True fg r
    by (simp add: twoOfAKind_gate highCard_returned del: qualifies.simps)
      (simp add: returned_def)
  then show ?thesis ..
next
  case False
  then show ?thesis
    by (auto simp: twoOfAKind_gate simp del: qualifies.simps)
qed

lemma twoPairs_ranked:
  "twoPairs h1 h2 rsn = Inr None \<or> returned h1 h2 (twoPairs h1 h2 rsn)"
proof (cases "qualifies TwoPairs h1 \<and> qualifies TwoPairs h2")
  case True
  then obtain f g f' g' where fg: "fst (Hand_pairs h1) = Some f" "fst (Hand_pairs h2) = Some g"
    "fst (snd (Hand_pairs h1)) = Some f'" "fst (snd (Hand_pairs h2)) = Some g'"
    by auto
  obtain r where r: "compareFaces (Some f) (Some g) h1 h2 rsn = Inr r" "win_or_draw h1 h2 r"
    using compareFaces_Some by blast
  obtain r' where r': "compareFaces (Some f') (Some g') h1 h2 rsn = Inr r'"
    "win_or_draw h1 h2 r'"
    using compareFaces_Some by blast
  have "returned h1 h2 (twoPairs h1 h2 rsn)"
    using True fg r r'
    by (simp add: twoPairs_gate highCard_returned del: qualifies.simps)
      (simp add: returned_def)
  then show ?thesis ..
next
  case False
  then show ?thesis
    by (auto simp: twoPairs_gate simp del: qualifies.simps)
qed

lemma fourOfAKind_ranked:
  "fourOfAKind h1 h2 rsn = Inr None \<or> ranked h1 h2 (fourOfAKind h1 h2 rsn)"
proof (cases "qualifies FourOfAKind h1 \<and> qualifies FourOfAKind h2")
  case True
  then obtain f g where fg: "fst (Hand_quartet h1) = Some f" "fst (Hand_quartet h2) = Some g"
    by auto
  with True fatal_tie_ranked [of h1 h2 f g rsn] show ?thesis
    by (simp add: fourOfAKind_gate del: qualifies.simps)
next
  case False
  then show ?thesis
    by (auto simp: fourOfAKind_gate returned_ranked simp del: qualifies.simps)
qed

lemma fullHouse_ranked:
  "fullHouse h1 h2 rsn = Inr None \<or> ranked h1 h2 (fullHouse h1 h2 rsn)"
proof (cases "qualifies FullHouse h1 \<and> qualifies FullHouse h2")
  case True
  then obtain f g where fg: "Hand_fullHouse h1 = Some f" "Hand_fullHouse h2 = Some g"
    by auto
  with True fatal_tie_ranked [of h1 h2 f g rsn] show ?thesis
    by (simp add: fullHouse_gate del: qualifies.simps)
next
  case False
  then show ?thesis
    by (auto simp: fullHouse_gate returned_ranked simp del: qualifies.simps)
qed

lemma threeOfAKind_ranked:
  "threeOfAKind h1 h2 rsn = Inr None \<or> ranked h1 h2 (threeOfAKind h1 h2 rsn)"
proof (cases "qualifies ThreeOfAKind h1 \<and> qualifies ThreeOfAKind h2")
  case True
  then obtain f g where fg: "fst (Hand_triplet h1) = Some f" "fst (Hand_triplet h2) = Some g"
    by auto
  with True fatal_tie_ranked [of h1 h2 f g rsn] show ?thesis
    by (simp add: threeOfAKind_gate del: qualifies.simps)
next
  case False
  then show ?thesis
    by (auto simp: threeOfAKind_gate returned_ranked simp del: qualifies.simps)
qed

subsection \<open>The loop of rank\<close>

lemma rank_loop_Cons:
  "rank_loop (c # cs) h1 h2 = (if c h1 h2 = Inr None then rank_loop cs h1 h2 else c h1 h2)"
  by (auto split: sum.splits option.splits)

lemma rank_loop_last:
  assumes "\<forall>c \<in> set cs. c h1 h2 = Inr None \<or> P (c h1 h2)" "P (lastc h1 h2)"
  shows "P (rank_loop (cs @ [lastc]) h1 h2)"
  using assms
proof (induction cs)
  case Nil
  then show ?case by (auto split: sum.splits option.splits)
next
  case (Cons c cs)
  then show ?case by (auto simp: rank_loop_Cons simp del: rank_loop.simps)
qed

lemma categories_last:
  "categories =
     [\<lambda>h1 h2. straightFlush h1 h2 ''Straight Flush'',
      \<lambda>h1 h2. fourOfAKind h1 h2 ''Four of a Kind'',
      \<lambda>h1 h2. fullHouse h1 h2 ''Full House'',
      \<lambda>h1 h2. flush h1 h2 ''Flush'',
      \<lambda>h1 h2. straight h1 h2 ''Straight'',
      \<lambda>h1 h2. threeOfAKind h1 h2 ''Three of a Kind'',
      \<lambda>h1 h2. twoPairs h1 h2 ''Two Pairs'',
      \<lambda>h1 h2. twoOfAKind h1 h2 ''Two of a Kind''] @
     [\<lambda>h1 h2. highCard h1 h2 ''High Card'']"
  by (simp add: categories_def)

lemma rank_ranked:
  assumes len: "length (cards h1) = 5" "length (cards h2) = 5"
  shows "ranked h1 h2 (rank h1 h2)"
  unfolding rank_def categories_last
proof (rule rank_loop_last)
  show "ranked h1 h2 (highCard h1 h2 ''High Card'')"
    by (simp add: returned_ranked highCard_returned)
  show "\<forall>c\<in>set [\<lambda>h1 h2. straightFlush h1 h2 ''Straight Flush'',
      \<lambda>h1 h2. fourOfAKind h1 h2 ''Four of a Kind'',
      \<lambda>h1 h2. fullHouse h1 h2 ''Full House'',
      \<lambda>h1 h2. flush h1 h2 ''Flush'',
      \<lambda>h1 h2. straight h1 h2 ''Straight'',
      \<lambda>h1 h2. threeOfAKind h1 h2 ''Three of a Kind'',
      \<lambda>h1 h2. twoPairs h1 h2 ''Two Pairs'',
      \<lambda>h1 h2. twoOfAKind h1 h2 ''Two of a Kind'']. c h1 h2 = Inr None \<or> ranked h1 h2 (c h1 h2)"
    by (simp add: straightFlush_ranked [OF len, THEN or_returned_ranked]
        fourOfAKind_ranked fullHouse_ranked flush_ranked [THEN or_returned_ranked]
        straight_ranked [OF len, THEN or_returned_ranked] threeOfAKind_ranked
        twoPairs_ranked [THEN or_returned_ranked] twoOfAKind_ranked [THEN or_returned_ranked])
qed

subsection \<open>Counting faces\<close>

lemma filter_sorted_reverse:
  "length (filter P (sorted_reverse key xs)) = length (filter P xs)"
proof -
  have "filter P (sorted_reverse key xs) = rev (sort_key key (filter P (rev xs)))"
    by (simp add: sorted_reverse_def rev_filter [symmetric] filter_sort)
  then show ?thesis by (simp add: rev_filter [symmetric])
qed

lemma count_face_descending: "count_face (descending h) f = count_face (cards h) f"
  by (simp add: count_face_def descending_def filter_sorted_reverse)

lemma hd_sorted_reverse:
  assumes "sorted_reverse key xs = y # ys" "x \<in> set xs"
  shows "key x \<le> key y"
proof -
  have "sorted (rev (map key (y # ys)))"
    using sorted_sorted_reverse [of key xs] assms(1) by simp
  moreover have "x \<in> set (y # ys)"
    using assms by (metis set_sorted_reverse)
  ultimately show ?thesis
    by (auto simp: sorted_append)
qed

lemma count_face_two_faces:
  "f \<noteq> g \<Longrightarrow> count_face cs f + count_face cs g \<le> length cs"
  by (induction cs) (auto simp: count_face_def)

lemma length_residual:
  "length [c \<leftarrow> cs. face c \<noteq> f] = length cs - count_face cs f"
  using sum_length_filter_compl [of "\<lambda>c. face c = f" cs] by (simp add: count_face_def)

lemma count_face_residual:
  "count_face [c \<leftarrow> cs. face c \<noteq> f] g = (if g = f then 0 else count_face cs g)"
  by (induction cs) (auto simp: count_face_def)

lemma two_of_a_face:
  assumes "distinct cs" "2 \<le> count_face cs f"
  shows "\<exists>c d. c \<in> set cs \<and> d \<in> set cs \<and> c \<noteq> d \<and> face c = f \<and> face d = f"
proof -
  let ?xs = "[c \<leftarrow> cs. face c = f]"
  have d: "distinct ?xs" using assms(1) by simp
  have "2 \<le> length ?xs" using assms(2) by (simp add: count_face_def)
  then obtain c d rest where xs: "?xs = c # d # rest"
    by (cases ?xs; cases "tl ?xs") auto
  have "c \<in> set ?xs" "d \<in> set ?xs" by (simp_all add: xs)
  moreover have "c \<noteq> d" using d by (simp add: xs)
  ultimately show ?thesis by auto
qed

lemma UNIV_Suit: "(UNIV :: Suit set) = {CLUBS, DIAMONDS, HEARTS, SPADES}"
  using Suit.exhaust by auto

lemma count_face_le_4:
  assumes "distinct cs"
  shows "count_face cs f \<le> 4"
proof -
  let ?xs = "[c \<leftarrow> cs. face c = f]"
  have "inj_on suit (set ?xs)"
    by (auto simp: inj_on_def intro: Card.expand)
  with assms have "distinct (map suit ?xs)"
    by (simp add: distinct_map)
  then have "length ?xs = card (set (map suit ?xs))"
    by (metis distinct_card length_map)
  also have "\<dots> \<le> card (UNIV :: Suit set)"
  proof (rule card_mono)
    show "finite (UNIV :: Suit set)" by (simp add: UNIV_Suit)
    show "set (map suit ?xs) \<subseteq> UNIV" by (rule subset_UNIV)
  qed
  also have "\<dots> = 4" by (simp add: UNIV_Suit)
  finally show ?thesis by (simp add: count_face_def)
qed

lemma count_face_append: "count_face (cs1 @ cs2) f = count_face cs1 f + count_face cs2 f"
  by (simp add: count_face_def)

lemma count_face_single_deck:
  assumes "distinct cs1" "distinct cs2" "set cs1 \<inter> set cs2 = {}"
  shows "count_face cs1 f + count_face cs2 f \<le> 4"
  using count_face_le_4 [of "cs1 @ cs2" f] assms by (simp add: count_face_append)

subsection \<open>The detectors of a hand built by the constructor\<close>

lemma facesOccuringTimes_Nil:
  "0 < n \<Longrightarrow> facesOccuringTimes (Hand_init col cs) n = [] \<longleftrightarrow> (\<forall>f. count_face cs f \<noteq> n)"
  using set_facesOccuringTimes [of n col cs] by (auto simp: set_empty [symmetric] simp del: set_empty)

lemma facesOccuringTimes_Cons:
  assumes "0 < n" "facesOccuringTimes (Hand_init col cs) n = f0 # fs"
  shows "count_face cs f0 = n"
    and "count_face cs g = n \<Longrightarrow> Face_value g \<le> Face_value f0"
proof -
  have s: "set (f0 # fs) = {f. count_face cs f = n}"
    using set_facesOccuringTimes [OF assms(1), of col cs] assms(2) by simp
  then show "count_face cs f0 = n" by auto
  assume "count_face cs g = n"
  then have "g \<in> set (f0 # fs)" using s by simp
  then have "g \<in> set [f \<leftarrow> map fst (faceCounts (Hand_init col cs)).
      map_of (faceCounts (Hand_init col cs)) f = Some n]"
    using assms(2) by (metis facesOccuringTimes_def set_sorted_reverse)
  then show "Face_value g \<le> Face_value f0"
    using hd_sorted_reverse [OF assms(2) [unfolded facesOccuringTimes_def]] by blast
qed

lemma Hand_pair_init:
  "Hand_pair (Hand_init col cs) =
     (case facesOccuringTimes (Hand_init col cs) 2 of
        f0 # _ \<Rightarrow> (Some f0, Hand_init col (pyset [card \<leftarrow> cs. face card \<noteq> f0]))
      | [] \<Rightarrow> (None, Hand_init col cs))"
  by (cases "facesOccuringTimes (Hand_init col cs) 2") (simp_all add: Hand_pair_def)

lemma fst_Hand_pair_Some:
  assumes "fst (Hand_pair (Hand_init col cs)) = Some f"
  shows "count_face cs f = 2"
  using assms facesOccuringTimes_Cons(1) [of 2 col cs]
  by (auto simp: Hand_pair_def split: list.splits)

lemma fst_Hand_pair_None:
  "fst (Hand_pair (Hand_init col cs)) = None \<longleftrightarrow> (\<forall>f. count_face cs f \<noteq> 2)"
  using facesOccuringTimes_Nil [of 2 col cs]
  by (cases "facesOccuringTimes (Hand_init col cs) 2") (simp_all add: Hand_pair_def)

lemma fst_Hand_triplet_Some:
  assumes "fst (Hand_triplet (Hand_init col cs)) = Some f"
  shows "count_face cs f = 3"
  using assms facesOccuringTimes_Cons(1) [of 3 col cs]
  by (auto simp: Hand_triplet_def split: list.splits)

lemma fst_Hand_triplet_None:
  "fst (Hand_triplet (Hand_init col cs)) = None \<longleftrightarrow> (\<forall>f. count_face cs f \<noteq> 3)"
  using facesOccuringTimes_Nil [of 3 col cs]
  by (cases "facesOccuringTimes (Hand_init col cs) 3") (simp_all add: Hand_triplet_def)

lemma fst_Hand_quartet_Some:
  assumes "fst (Hand_quartet (Hand_init col cs)) = Some f"
  shows "count_face cs f = 4"
  using assms facesOccuringTimes_Cons(1) [of 4 col cs]
  by (auto simp: Hand_quartet_def split: list.splits)

lemma fst_Hand_quartet_None:
  "fst (Hand_quartet (Hand_init col cs)) = None \<longleftrightarrow> (\<forall>f. count_face cs f \<noteq> 4)"
  using facesOccuringTimes_Nil [of 4 col cs]
  by (cases "facesOccuringTimes (Hand_init col cs) 4") (simp_all add: Hand_quartet_def)

lemma Hand_fullHouse_Some:
  assumes "Hand_fullHouse (Hand_init col cs) = Some f"
  shows "fst (Hand_triplet (Hand_init col cs)) = Some f"
  using assms
  by (auto simp: Hand_fullHouse_def split: prod.splits option.splits)

lemma Hand_fullHouse_iff:
  "Hand_fullHouse h \<noteq> None \<longleftrightarrow>
     fst (Hand_triplet h) \<noteq> None \<and> fst (Hand_pair (snd (Hand_triplet h))) \<noteq> None"
  by (auto simp: Hand_fullHouse_def split: prod.splits option.splits)

subsection \<open>Two hands dealt from one deck\<close>

lemma valid_hand_init:
  assumes "valid_hand h"
  obtains col cs where "h = Hand_init col cs" "distinct cs" "length cs = 5"
  using assms unfolding valid_hand_def by blast

lemma fourOfAKind_single_deck:
  assumes "valid_hand h1" "valid_hand h2" "set (cards h1) \<inter> set (cards h2) = {}"
  shows "fourOfAKind h1 h2 rsn = Inr None \<or> returned h1 h2 (fourOfAKind h1 h2 rsn)"
proof (cases "qualifies FourOfAKind h1 \<and> qualifies FourOfAKind h2")
  case True
  then obtain f g where fg: "fst (Hand_quartet h1) = Some f" "fst (Hand_quartet h2) = Some g"
    by auto
  from assms(1) obtain col1 cs1 where h1: "h1 = Hand_init col1 cs1" "distinct cs1"
    by (rule valid_hand_init)
  from assms(2) obtain col2 cs2 where h2: "h2 = Hand_init col2 cs2" "distinct cs2"
    by (rule valid_hand_init)
  have "count_face cs1 f = 4" "count_face cs2 g = 4"
    using fg fst_Hand_quartet_Some [of col1 cs1 f] fst_Hand_quartet_Some [of col2 cs2 g]
    unfolding h1(1) h2(1) by blast+
  moreover have "count_face cs1 f + count_face cs2 f \<le> 4"
    using count_face_single_deck [of cs1 cs2 f] h1(2) h2(2) assms(3)
    by (simp add: h1(1) h2(1))
  ultimately have "f \<noteq> g" by auto
  with True fg fatal_tie_returned [of f g h1 h2 rsn] show ?thesis
    by (simp add: fourOfAKind_gate del: qualifies.simps)
next
  case False
  then show ?thesis
    by (auto simp: fourOfAKind_gate simp del: qualifies.simps)
qed

lemma fullHouse_single_deck:
  assumes "valid_hand h1" "valid_hand h2" "set (cards h1) \<inter> set (cards h2) = {}"
  shows "fullHouse h1 h2 rsn = Inr None \<or> returned h1 h2 (fullHouse h1 h2 rsn)"
proof (cases "qualifies FullHouse h1 \<and> qualifies FullHouse h2")
  case True
  then obtain f g where fg: "Hand_fullHouse h1 = Some f" "Hand_fullHouse h2 = Some g"
    by auto
  from assms(1) obtain col1 cs1 where h1: "h1 = Hand_init col1 cs1" "distinct cs1"
    by (rule valid_hand_init)
  from assms(2) obtain col2 cs2 where h2: "h2 = Hand_init col2 cs2" "distinct cs2"
    by (rule valid_hand_init)
  have "count_face cs1 f = 3" "count_face cs2 g = 3"
    using fg fst_Hand_triplet_Some [OF Hand_fullHouse_Some, of col1 cs1 f]
      fst_Hand_triplet_Some [OF Hand_fullHouse_Some, of col2 cs2 g]
    unfolding h1(1) h2(1) by blast+
  moreover have "count_face cs1 f + count_face cs2 f \<le> 4"
    using count_face_single_deck [of cs1 cs2 f] h1(2) h2(2) assms(3)
    by (simp add: h1(1) h2(1))
  ultimately have "f \<noteq> g" by auto
  with True fg fatal_tie_returned [of f g h1 h2 rsn] show ?thesis
    by (simp add: fullHouse_gate del: qualifies.simps)
next
  case False
  then show ?thesis
    by (auto simp: fullHouse_gate simp del: qualifies.simps)
qed

lemma threeOfAKind_single_deck:
  assumes "valid_hand h1" "valid_hand h2" "set (cards h1) \<inter> set (cards h2) = {}"
  shows "threeOfAKind h1 h2 rsn = Inr None \<or> returned h1 h2 (threeOfAKind h1 h2 rsn)"
proof (cases "qualifies ThreeOfAKind h1 \<and> qualifies ThreeOfAKind h2")
  case True
  then obtain f g where fg: "fst (Hand_triplet h1) = Some f" "fst (Hand_triplet h2) = Some g"
    by auto
  from assms(1) obtain col1 cs1 where h1: "h1 = Hand_init col1 cs1" "distinct cs1"
    by (rule valid_hand_init)
  from assms(2) obtain col2 cs2 where h2: "h2 = Hand_init col2 cs2" "distinct cs2"
    by (rule valid_hand_init)
  have "count_face cs1 f = 3" "count_face cs2 g = 3"
    using fg fst_Hand_triplet_Some [of col1 cs1 f] fst_Hand_triplet_Some [of col2 cs2 g]
    unfolding h1(1) h2(1) by blast+
  moreover have "count_face cs1 f + count_face cs2 f \<le> 4"
    using count_face_single_deck [of cs1 cs2 f] h1(2) h2(2) assms(3)
    by (simp add: h1(1) h2(1))
  ultimately have "f \<noteq> g" by auto
  with True fg fatal_tie_returned [of f g h1 h2 rsn] show ?thesis
    by (simp add: threeOfAKind_gate del: qualifies.simps)
next
  case False
  then show ?thesis
    by (auto simp: threeOfAKind_gate simp del: qualifies.simps)
qed

lemma rank_single_deck:
  assumes v: "valid_hand h1" "valid_hand h2" "set (cards h1) \<inter> set (cards h2) = {}"
  shows "returned h1 h2 (rank h1 h2)"
  unfolding rank_def categories_last
proof (rule rank_loop_last)
  have len: "length (cards h1) = 5" "length (cards h2) = 5"
    using v by (simp_all add: valid_hand_def)
  show "returned h1 h2 (highCard h1 h2 ''High Card'')"
    by (simp add: highCard_returned)
  show "\<forall>c\<in>set [\<lambda>h1 h2. straightFlush h1 h2 ''Straight Flush'',
      \<lambda>h1 h2. fourOfAKind h1 h2 ''Four of a Kind'',
      \<lambda>h1 h2. fullHouse h1 h2 ''Full House'',
      \<lambda>h1 h2. flush h1 h2 ''Flush'',
      \<lambda>h1 h2. straight h1 h2 ''Straight'',
      \<lambda>h1 h2. threeOfAKind h1 h2 ''Three of a Kind'',
      \<lambda>h1 h2. twoPairs h1 h2 ''Two Pairs'',
      \<lambda>h1 h2. twoOfAKind h1 h2 ''Two of a Kind'']. c h1 h2 = Inr None \<or> returned h1 h2 (c h1 h2)"
    by (simp add: straightFlush_ranked [OF len] fourOfAKind_single_deck [OF v]
        fullHouse_single_deck [OF v] flush_ranked straight_ranked [OF len]
        threeOfAKind_single_deck [OF v] twoPairs_ranked twoOfAKind_ranked)
qed

subsection \<open>Straights\<close>

lemma compareFaces_face_comparison:
  "compareFaces (Some f1) (Some f2) h1 h2 rsn = Inr (face_comparison f1 f2 h1 h2 rsn)"
  by (simp add: compareFaces_def face_comparison_def win_def)

lemma isDraw_face_comparison: "isDraw (face_comparison f1 f2 h1 h2 rsn) \<longleftrightarrow> f1 = f2"
  by (auto simp: face_comparison_def)

text \<open>A hand of five cards with a straight: its descending cards and their faces.\<close>

lemma straight_run:
  assumes "length (cards h) = 5" "Hand_straight h = Inr (Some t)"
  obtains a b c d e where "descending h = [a, b, c, d, e]" "face a = t"
    "Face_value (face b) = Face_value t - 1" "Face_value (face c) = Face_value t - 2"
    "Face_value (face d) = Face_value t - 3" "Face_value (face e) = Face_value t - 4"
proof -
  from assms(1) have "length (descending h) = 5" by simp
  then obtain a b c d e where d: "descending h = [a, b, c, d, e]"
    using length_five by blast
  from assms(2) have "Face_value (face a) - 1 = Face_value (face b)
           \<and> Face_value (face b) - 1 = Face_value (face c)
           \<and> Face_value (face c) - 1 = Face_value (face d)
           \<and> Face_value (face d) - 1 = Face_value (face e) \<and> face a = t"
    by (simp add: Hand_straight_list [OF d] split: if_splits)
  then have "face a = t"
    "Face_value (face b) = Face_value t - 1" "Face_value (face c) = Face_value t - 2"
    "Face_value (face d) = Face_value t - 3" "Face_value (face e) = Face_value t - 4"
    by auto
  with d that show ?thesis by blast
qed

lemma straight_top_face:
  assumes "length (cards h) = 5" "Hand_straight h = Inr (Some t)"
  shows "top_face h = Some t"
  using straight_run [OF assms] by (metis (no_types, lifting) list.simps(5) top_face_def)

lemma highCard_runs:
  assumes len: "length (cards h1) = 5" "length (cards h2) = 5"
    and s: "Hand_straight h1 = Inr (Some t1)" "Hand_straight h2 = Inr (Some t2)"
  shows "highCard h1 h2 rsn = Inr (Some (face_comparison t1 t2 h1 h2 rsn))"
proof -
  from len(1) s(1) obtain a1 b1 c1 d1 e1 where r1: "descending h1 = [a1, b1, c1, d1, e1]"
    "face a1 = t1"
    "Face_value (face b1) = Face_value t1 - 1" "Face_value (face c1) = Face_value t1 - 2"
    "Face_value (face d1) = Face_value t1 - 3" "Face_value (face e1) = Face_value t1 - 4"
    by (rule straight_run)
  from len(2) s(2) obtain a2 b2 c2 d2 e2 where r2: "descending h2 = [a2, b2, c2, d2, e2]"
    "face a2 = t2"
    "Face_value (face b2) = Face_value t2 - 1" "Face_value (face c2) = Face_value t2 - 2"
    "Face_value (face d2) = Face_value t2 - 3" "Face_value (face e2) = Face_value t2 - 4"
    by (rule straight_run)
  show ?thesis
  proof (cases "t1 = t2")
    case True
    have "Face_value (face b1) = Face_value (face b2)" "Face_value (face c1) = Face_value (face c2)"
      "Face_value (face d1) = Face_value (face d2)" "Face_value (face e1) = Face_value (face e2)"
      using r1 r2 True by simp_all
    then have "map face (descending h1) = map face (descending h2)"
      using r1(1,2) r2(1,2) True by simp
    then have "highCard h1 h2 rsn = Inr (Some draw)"
      by (simp add: highCard_def deepComparison_same_faces)
    with True show ?thesis by (simp add: face_comparison_def)
  next
    case False
    then have "\<not> isDraw (face_comparison t1 t2 h1 h2 rsn)"
      by (simp add: isDraw_face_comparison)
    then show ?thesis
      by (simp add: highCard_def r1(1,2) r2(1,2) compareFaces_face_comparison)
  qed
qed

subsection \<open>A repeated face excludes the straight and the flush\<close>

lemma count_face_distinct: "distinct (map face cs) \<Longrightarrow> count_face cs f \<le> 1"
proof (induction cs)
  case Nil
  show ?case by (simp add: count_face_def)
next
  case (Cons c cs)
  show ?case
  proof (cases "face c = f")
    case True
    with Cons.prems have "f \<notin> face ` set cs" by simp
    then have "\<forall>x \<in> set cs. face x \<noteq> f" by blast
    then have "[x \<leftarrow> cs. face x = f] = []" by (simp add: filter_empty_conv)
    with True show ?thesis by (simp add: count_face_def)
  next
    case False
    with Cons show ?thesis by (simp add: count_face_def)
  qed
qed

lemma repeated_face_no_straight:
  assumes len: "length (cards h) = 5" and two: "2 \<le> count_face (cards h) f"
  shows "Hand_straight h = Inr None"
proof -
  obtain r where r: "Hand_straight h = Inr r"
    using Hand_straight_total [OF len] by blast
  show ?thesis
  proof (cases r)
    case None
    with r show ?thesis by simp
  next
    case (Some t)
    with r len obtain a b c d e where run: "descending h = [a, b, c, d, e]" "face a = t"
      "Face_value (face b) = Face_value t - 1" "Face_value (face c) = Face_value t - 2"
      "Face_value (face d) = Face_value t - 3" "Face_value (face e) = Face_value t - 4"
      using straight_run [of h t] by blast
    have "distinct (map Face_value (map face [a, b, c, d, e]))"
      by (simp add: run(2-))
    then have "distinct (map face [a, b, c, d, e])"
      by (simp only: distinct_map)
    then have "count_face [a, b, c, d, e] f \<le> 1"
      by (rule count_face_distinct)
    then have "count_face (cards h) f \<le> 1"
      using count_face_descending [of h f] run(1) by simp
    with two show ?thesis by simp
  qed
qed

lemma repeated_face_not_straight:
  assumes "length (cards h) = 5" "2 \<le> count_face (cards h) f"
  shows "\<not> qualifies Straight h" "\<not> qualifies StraightFlush h"
  using repeated_face_no_straight [OF assms]
  by (simp_all add: straight_and_flush_def)

lemma all_of_suit:
  assumes "count_suit cs s = length cs" "c \<in> set cs"
  shows "suit c = s"
proof -
  have "length [c \<leftarrow> cs. \<not> suit c = s] = 0"
    using sum_length_filter_compl [of "\<lambda>c. suit c = s" cs] assms(1)
    by (simp add: count_suit_def)
  then show ?thesis using assms(2) by (simp add: filter_empty_conv)
qed

lemma repeated_face_not_flush:
  assumes d: "distinct cs" and len: "length cs = 5" and two: "2 \<le> count_face cs f"
  shows "\<not> qualifies Flush (Hand_init col cs)"
proof
  assume "qualifies Flush (Hand_init col cs)"
  then obtain s where "s \<in> set (suitsOccuringTimes (Hand_init col cs) 5)"
    by (cases "suitsOccuringTimes (Hand_init col cs) 5") (auto simp: isFlush_def)
  then have s: "count_suit cs s = length cs"
    using set_suitsOccuringTimes [of 5 col cs] len by simp
  from two_of_a_face [OF d two] obtain c c' where c: "c \<in> set cs" "c' \<in> set cs" "c \<noteq> c'"
    "face c = f" "face c' = f"
    by blast
  have "suit c = s" "suit c' = s"
    using all_of_suit [OF s] c(1,2) by simp_all
  with c(3,4,5) show False by (simp add: Card.expand)
qed

lemma triplet_not_quartet:
  assumes len: "length cs = 5" and three: "count_face cs f = 3"
  shows "\<not> qualifies FourOfAKind (Hand_init col cs)"
proof -
  have "count_face cs g \<noteq> 4" for g
  proof
    assume g: "count_face cs g = 4"
    with three have "f \<noteq> g" by auto
    from count_face_two_faces [OF this, of cs] three g len show False by simp
  qed
  then show ?thesis by (simp add: fst_Hand_quartet_None)
qed

subsection \<open>Equal matched faces\<close>

lemma fatal_tie_same: 
  "ebind (compareFaces (Some f) (Some f) h1 h2 rsn)
     (\<lambda>result. if isDraw result then Inl InvalidCardDeck else Inr (Some result)) =
   Inl InvalidCardDeck"
  by simp

lemma rank_same_quartet:
  assumes v: "valid_hand h1" "valid_hand h2"
    and q: "fst (Hand_quartet h1) = Some f" "fst (Hand_quartet h2) = Some f"
  shows "rank h1 h2 = Inl InvalidCardDeck"
proof -
  from v(1) obtain col1 cs1 where h1: "h1 = Hand_init col1 cs1" "distinct cs1" "length cs1 = 5"
    by (rule valid_hand_init)
  from v(2) obtain col2 cs2 where h2: "h2 = Hand_init col2 cs2" "distinct cs2" "length cs2 = 5"
    by (rule valid_hand_init)
  have len: "length (cards h1) = 5" "length (cards h2) = 5"
    by (simp_all add: h1 h2)
  have c: "count_face (cards h1) f = 4" "count_face (cards h2) f = 4"
    using q fst_Hand_quartet_Some [of col1 cs1 f] fst_Hand_quartet_Some [of col2 cs2 f]
    by (simp_all add: h1(1) h2(1))
  have nsf: "\<not> qualifies StraightFlush h1" "\<not> qualifies StraightFlush h2"
    using repeated_face_not_straight(2) [OF len(1), of f]
      repeated_face_not_straight(2) [OF len(2), of f] c by simp_all
  have q4: "qualifies FourOfAKind h1" "qualifies FourOfAKind h2"
    using q by simp_all
  show ?thesis
    using nsf q4 q
    by (simp add: rank_def categories_def straightFlush_gate len fourOfAKind_gate
        del: qualifies.simps)
qed

lemma rank_same_fullHouse:
  assumes v: "valid_hand h1" "valid_hand h2"
    and q: "Hand_fullHouse h1 = Some f" "Hand_fullHouse h2 = Some f"
  shows "rank h1 h2 = Inl InvalidCardDeck"
proof -
  from v(1) obtain col1 cs1 where h1: "h1 = Hand_init col1 cs1" "distinct cs1" "length cs1 = 5"
    by (rule valid_hand_init)
  from v(2) obtain col2 cs2 where h2: "h2 = Hand_init col2 cs2" "distinct cs2" "length cs2 = 5"
    by (rule valid_hand_init)
  have len: "length (cards h1) = 5" "length (cards h2) = 5"
    by (simp_all add: h1 h2)
  have c0: "count_face cs1 f = 3" "count_face cs2 f = 3"
    using q fst_Hand_triplet_Some [OF Hand_fullHouse_Some, of col1 cs1 f]
      fst_Hand_triplet_Some [OF Hand_fullHouse_Some, of col2 cs2 f]
    by (simp_all add: h1(1) h2(1))
  then have c: "count_face (cards h1) f = 3" "count_face (cards h2) f = 3"
    by (simp_all add: h1(1) h2(1))
  have nsf: "\<not> qualifies StraightFlush h1" "\<not> qualifies StraightFlush h2"
    using repeated_face_not_straight(2) [OF len(1), of f]
      repeated_face_not_straight(2) [OF len(2), of f] c by simp_all
  have n4: "\<not> qualifies FourOfAKind h1" "\<not> qualifies FourOfAKind h2"
    using triplet_not_quartet [OF h1(3) c0(1), of col1]
      triplet_not_quartet [OF h2(3) c0(2), of col2]
    by (simp_all add: h1(1) h2(1))
  have qf: "qualifies FullHouse h1" "qualifies FullHouse h2"
    using q by simp_all
  show ?thesis
    using nsf n4 qf q
    by (simp add: rank_def categories_def straightFlush_gate len fourOfAKind_gate fullHouse_gate
        del: qualifies.simps)
qed

lemma rank_same_triplet:
  assumes v: "valid_hand h1" "valid_hand h2"
    and q: "fst (Hand_triplet h1) = Some f" "fst (Hand_triplet h2) = Some f"
  shows "rank h1 h2 =
     (if qualifies FullHouse h1 \<and> \<not> qualifies FullHouse h2
        then Inr (Some (win h1 ''Full House''))
      else if \<not> qualifies FullHouse h1 \<and> qualifies FullHouse h2
        then Inr (Some (win h2 ''Full House''))
      else Inl InvalidCardDeck)"
proof -
  from v(1) obtain col1 cs1 where h1: "h1 = Hand_init col1 cs1" "distinct cs1" "length cs1 = 5"
    by (rule valid_hand_init)
  from v(2) obtain col2 cs2 where h2: "h2 = Hand_init col2 cs2" "distinct cs2" "length cs2 = 5"
    by (rule valid_hand_init)
  have len: "length (cards h1) = 5" "length (cards h2) = 5"
    by (simp_all add: h1 h2)
  have c0: "count_face cs1 f = 3" "count_face cs2 f = 3"
    using q fst_Hand_triplet_Some [of col1 cs1 f] fst_Hand_triplet_Some [of col2 cs2 f]
    by (simp_all add: h1(1) h2(1))
  then have c: "count_face (cards h1) f = 3" "count_face (cards h2) f = 3"
    by (simp_all add: h1(1) h2(1))
  have ns: "\<not> qualifies StraightFlush h1" "\<not> qualifies StraightFlush h2"
    "\<not> qualifies Straight h1" "\<not> qualifies Straight h2"
    using repeated_face_not_straight [OF len(1), of f]
      repeated_face_not_straight [OF len(2), of f] c by simp_all
  have n4: "\<not> qualifies FourOfAKind h1" "\<not> qualifies FourOfAKind h2"
    using triplet_not_quartet [OF h1(3) c0(1), of col1]
      triplet_not_quartet [OF h2(3) c0(2), of col2]
    by (simp_all add: h1(1) h2(1))
  have nf: "\<not> qualifies Flush h1" "\<not> qualifies Flush h2"
    using repeated_face_not_flush [OF h1(2,3), of f col1]
      repeated_face_not_flush [OF h2(2,3), of f col2] c0
    by (simp_all add: h1(1) h2(1))
  have q3: "qualifies ThreeOfAKind h1" "qualifies ThreeOfAKind h2"
    using q by simp_all
  have fh: "Hand_fullHouse h1 = Some f" if "qualifies FullHouse h1"
    using that q(1) Hand_fullHouse_Some [of col1 cs1] by (auto simp: h1(1))
  have fh': "Hand_fullHouse h2 = Some f" if "qualifies FullHouse h2"
    using that q(2) Hand_fullHouse_Some [of col2 cs2] by (auto simp: h2(1))
  show ?thesis
    using ns n4 nf q3 q fh fh'
    by (simp add: rank_def categories_def straightFlush_gate len fourOfAKind_gate fullHouse_gate
        flush_gate straight_gate threeOfAKind_gate del: qualifies.simps)
qed

subsection \<open>Sets of cards by hash and equality\<close>





subsection \<open>The cards a set keeps\<close>

lemma pyset_hash_snoc: "pyset_hash hash (cs @ [c]) = set_add_hash hash c (pyset_hash hash cs)"
  by (simp add: pyset_hash_def)








lemma set_pyset_hash_subset: "set (pyset_hash hash cs) \<subseteq> set cs"
  by (induction cs rule: rev_induct)
    (auto simp: pyset_hash_snoc set_add_hash_def pyset_hash_def)




section \<open>The properties\<close>

text \<open>
  C1: for two valid hands, when hand A qualifies for a category of strictly higher precedence
  than the best category of hand B, \<open>rank A B\<close> is a Win that names the owner of A; its
  reason is the bare name of A's best category, whatever the faces of the cards.
\<close>

theorem C1_higher_category_wins:
  assumes "valid_hand A" "valid_hand B" "qualifies c A"
    "precedence c < precedence (best_category B)"
  shows "rank A B = Inr (Some (win A (category_name (best_category A))))"
proof -
  have len: "length (cards A) = 5" "length (cards B) = 5"
    using assms by (simp_all add: valid_hand_def)
  have lt: "precedence (best_category A) < precedence (best_category B)"
    using best_category_le [OF assms(3)] assms(4) by simp
  have B: "\<not> qualifies d B" if "precedence d \<le> precedence (best_category A)" for d
    using that lt best_category_first [of d B] by simp
  have A: "\<not> qualifies d A" if "precedence d < precedence (best_category A)" for d
    using that best_category_first [of d A] by simp
  have nh: "best_category A \<noteq> HighCard"
  proof
    assume "best_category A = HighCard"
    with lt have "8 < precedence (best_category B)" by simp
    then show False by (cases "best_category B") simp_all
  qed
  show ?thesis
    using rank_first [OF len best_category_qualifies _ nh] A B by simp
qed

theorem C1_higher_category_wins_witness:
  "valid_hand flush_8TA \<and> valid_hand straight_26 \<and> qualifies Flush flush_8TA
   \<and> precedence Flush < precedence (best_category straight_26)
   \<and> rank flush_8TA straight_26 =
       Inr (Some (Result_init ''win'' (Some ''White'') (Some ''Flush'')))"
proof -
  have a: "valid_hand flush_8TA" by code_simp
  have b: "valid_hand straight_26" by code_simp
  have c: "qualifies Flush flush_8TA" by code_simp
  have d: "precedence Flush < precedence (best_category straight_26)" by code_simp
  have e: "win flush_8TA (category_name (best_category flush_8TA)) =
      Result_init ''win'' (Some ''White'') (Some ''Flush'')"
    by code_simp
  show ?thesis
    using a b c d C1_higher_category_wins [OF a b c d] by (simp add: e)
qed

text \<open>
  C2, as the claim states it, fails on the hands \<open>2D 2S 2H 5D 5S\<close> and \<open>2D 2S 2C 7D 8D\<close>:
  both qualify for Three of a Kind with the same triplet face, and \<open>rank\<close> returns a Win
  for the first hand with the reason \<open>Full House\<close>, the category tried before Three of a
  Kind, instead of raising \<open>InvalidCardDeck\<close>.
\<close>

theorem C2_invalid_deck_counterexample:
  "valid_hand full_house_2_5 \<and> valid_hand triplet_2_78
   \<and> qualifies ThreeOfAKind full_house_2_5 \<and> qualifies ThreeOfAKind triplet_2_78
   \<and> fst (Hand_triplet full_house_2_5) = Some Two \<and> fst (Hand_triplet triplet_2_78) = Some Two
   \<and> rank full_house_2_5 triplet_2_78 =
       Inr (Some (Result_init ''win'' (Some ''Black'') (Some ''Full House'')))
   \<and> rank full_house_2_5 triplet_2_78 \<noteq> Inl InvalidCardDeck"
  by code_simp

text \<open>
  C2, amended: for two valid hands that both qualify for Four of a Kind, Full House or Three
  of a Kind with the same matched face, the ranker of that category raises
  \<open>InvalidCardDeck\<close> instead of returning a Draw. For Four of a Kind and Full House
  \<open>rank\<close> raises \<open>InvalidCardDeck\<close> as well: no category decides before, none is tried
  after and no result is produced. For Three of a Kind \<open>rank\<close> raises \<open>InvalidCardDeck\<close>
  unless exactly one of the two hands is a full house; that hand then wins by Full House.
\<close>

theorem C2_invalid_deck_abort:
  assumes "valid_hand h1" "valid_hand h2"
  shows "(fst (Hand_quartet h1) = Some f \<and> fst (Hand_quartet h2) = Some f \<longrightarrow>
            fourOfAKind h1 h2 rsn = Inl InvalidCardDeck \<and> rank h1 h2 = Inl InvalidCardDeck)
     \<and> (Hand_fullHouse h1 = Some f \<and> Hand_fullHouse h2 = Some f \<longrightarrow>
            fullHouse h1 h2 rsn = Inl InvalidCardDeck \<and> rank h1 h2 = Inl InvalidCardDeck)
     \<and> (fst (Hand_triplet h1) = Some f \<and> fst (Hand_triplet h2) = Some f \<longrightarrow>
            threeOfAKind h1 h2 rsn = Inl InvalidCardDeck
            \<and> rank h1 h2 =
                (if qualifies FullHouse h1 \<and> \<not> qualifies FullHouse h2
                   then Inr (Some (win h1 ''Full House''))
                 else if \<not> qualifies FullHouse h1 \<and> qualifies FullHouse h2
                   then Inr (Some (win h2 ''Full House''))
                 else Inl InvalidCardDeck))"
proof (intro conjI impI)
  assume q: "fst (Hand_quartet h1) = Some f \<and> fst (Hand_quartet h2) = Some f"
  then show "fourOfAKind h1 h2 rsn = Inl InvalidCardDeck"
    by (simp add: fourOfAKind_gate)
  from q show "rank h1 h2 = Inl InvalidCardDeck"
    using rank_same_quartet [OF assms] by blast
next
  assume q: "Hand_fullHouse h1 = Some f \<and> Hand_fullHouse h2 = Some f"
  then show "fullHouse h1 h2 rsn = Inl InvalidCardDeck"
    by (simp add: fullHouse_gate)
  from q show "rank h1 h2 = Inl InvalidCardDeck"
    using rank_same_fullHouse [OF assms] by blast
next
  assume q: "fst (Hand_triplet h1) = Some f \<and> fst (Hand_triplet h2) = Some f"
  then show "threeOfAKind h1 h2 rsn = Inl InvalidCardDeck"
    by (simp add: threeOfAKind_gate)
  from q show "rank h1 h2 =
                (if qualifies FullHouse h1 \<and> \<not> qualifies FullHouse h2
                   then Inr (Some (win h1 ''Full House''))
                 else if \<not> qualifies FullHouse h1 \<and> qualifies FullHouse h2
                   then Inr (Some (win h2 ''Full House''))
                 else Inl InvalidCardDeck)"
    using rank_same_triplet [OF assms] by blast
qed


theorem C2_invalid_deck_abort_witness:
  "valid_hand triplet_2_56 \<and> valid_hand triplet_2_78
   \<and> fst (Hand_triplet triplet_2_56) = Some Two \<and> fst (Hand_triplet triplet_2_78) = Some Two
   \<and> threeOfAKind triplet_2_56 triplet_2_78 ''Three of a Kind'' = Inl InvalidCardDeck
   \<and> rank triplet_2_56 triplet_2_78 = Inl InvalidCardDeck"
proof -
  have a: "valid_hand triplet_2_56" by code_simp
  have b: "valid_hand triplet_2_78" by code_simp
  have c: "fst (Hand_triplet triplet_2_56) = Some Two \<and> fst (Hand_triplet triplet_2_78) = Some Two"
    by code_simp
  have d: "\<not> qualifies FullHouse triplet_2_56 \<and> \<not> qualifies FullHouse triplet_2_78"
    by code_simp
  show ?thesis
    using a b c d
      C2_invalid_deck_abort [OF a b, of Two "''Three of a Kind''", THEN conjunct2, THEN conjunct2, rule_format, OF c]
    by simp
qed

text \<open>
  C3: for two hands of five cards that both hold a straight, the Straight ranker raises no
  error and returns the comparison of the top faces of the two hands: a Win with the
  tie-break "X over Y" when they differ, a Draw when they are equal. The same holds of the
  Straight Flush ranker for two hands that both hold a straight flush, where the walk of
  \<open>highCard\<close> over the two runs stops at the first position when the top faces differ and
  draws at all five positions when they are equal.
\<close>

theorem C3_straights_compare_top_faces:
  assumes "length (cards h1) = 5" "length (cards h2) = 5"
  shows "(qualifies Straight h1 \<and> qualifies Straight h2 \<longrightarrow>
            (\<exists>t1 t2. top_face h1 = Some t1 \<and> top_face h2 = Some t2
               \<and> straight h1 h2 rsn = Inr (Some (face_comparison t1 t2 h1 h2 rsn))))
     \<and> (qualifies StraightFlush h1 \<and> qualifies StraightFlush h2 \<longrightarrow>
            (\<exists>t1 t2. top_face h1 = Some t1 \<and> top_face h2 = Some t2
               \<and> straightFlush h1 h2 rsn = Inr (Some (face_comparison t1 t2 h1 h2 rsn))))"
proof (intro conjI impI)
  assume q: "qualifies Straight h1 \<and> qualifies Straight h2"
  then obtain t1 t2 where s: "Hand_straight h1 = Inr (Some t1)" "Hand_straight h2 = Inr (Some t2)"
    using Hand_straight_five [OF assms(1)] Hand_straight_five [OF assms(2)] by auto
  have "straight h1 h2 rsn = Inr (Some (face_comparison t1 t2 h1 h2 rsn))"
    using q s
    by (simp add: straight_gate assms compareFaces_face_comparison del: qualifies.simps)
  with straight_top_face [OF assms(1) s(1)] straight_top_face [OF assms(2) s(2)]
  show "\<exists>t1 t2. top_face h1 = Some t1 \<and> top_face h2 = Some t2
      \<and> straight h1 h2 rsn = Inr (Some (face_comparison t1 t2 h1 h2 rsn))"
    by blast
next
  assume q: "qualifies StraightFlush h1 \<and> qualifies StraightFlush h2"
  then obtain t1 t2 where s: "Hand_straight h1 = Inr (Some t1)" "Hand_straight h2 = Inr (Some t2)"
    by (auto simp: straight_and_flush_def ebind_def split: sum.splits option.splits)
  have "straightFlush h1 h2 rsn = Inr (Some (face_comparison t1 t2 h1 h2 rsn))"
    using q by (simp add: straightFlush_gate assms highCard_runs [OF assms s] del: qualifies.simps)
  with straight_top_face [OF assms(1) s(1)] straight_top_face [OF assms(2) s(2)]
  show "\<exists>t1 t2. top_face h1 = Some t1 \<and> top_face h2 = Some t2
      \<and> straightFlush h1 h2 rsn = Inr (Some (face_comparison t1 t2 h1 h2 rsn))"
    by blast
qed

theorem C3_straights_compare_top_faces_witness:
  "length (cards straight_flush_26) = 5 \<and> length (cards straight_flush_37) = 5
   \<and> qualifies Straight straight_flush_26 \<and> qualifies Straight straight_flush_37
   \<and> qualifies StraightFlush straight_flush_26 \<and> qualifies StraightFlush straight_flush_37
   \<and> (\<exists>t1 t2. top_face straight_flush_26 = Some t1 \<and> top_face straight_flush_37 = Some t2
          \<and> straight straight_flush_26 straight_flush_37 ''Straight'' =
              Inr (Some (face_comparison t1 t2 straight_flush_26 straight_flush_37 ''Straight'')))
   \<and> (\<exists>t1 t2. top_face straight_flush_26 = Some t1 \<and> top_face straight_flush_37 = Some t2
          \<and> straightFlush straight_flush_26 straight_flush_37 ''Straight Flush'' =
              Inr (Some (face_comparison t1 t2 straight_flush_26 straight_flush_37
                           ''Straight Flush'')))"
proof -
  have a: "length (cards straight_flush_26) = 5" by code_simp
  have b: "length (cards straight_flush_37) = 5" by code_simp
  have c: "qualifies Straight straight_flush_26 \<and> qualifies Straight straight_flush_37"
    by code_simp
  have d: "qualifies StraightFlush straight_flush_26 \<and> qualifies StraightFlush straight_flush_37"
    by code_simp
  show ?thesis
    using a b c d
      C3_straights_compare_top_faces [OF a b, of "''Straight''", THEN conjunct1, rule_format, OF c]
      C3_straights_compare_top_faces [OF a b, of "''Straight Flush''", THEN conjunct2,
        rule_format, OF d]
    by simp
qed

text \<open>
  C4: for two valid hands \<open>rank\<close> ends (every function of the model is total) and never
  yields the "not applicable" value: it returns a Win or a Draw, or it raises
  \<open>InvalidCardDeck\<close>, the one exception a category can raise on such hands; \<open>highCard\<close>,
  the last category, returns a Win or a Draw for every two hands. When the two hands share
  no card, as two hands dealt from one deck, no category raises and \<open>rank\<close> returns a
  Win or a Draw.
\<close>

theorem C4_rank_returns_result:
  assumes "valid_hand h1" "valid_hand h2"
  shows "(rank h1 h2 = Inl InvalidCardDeck
          \<or> (\<exists>r. rank h1 h2 = Inr (Some r) \<and> win_or_draw h1 h2 r))
    \<and> (\<exists>r. highCard h1 h2 ''High Card'' = Inr (Some r) \<and> win_or_draw h1 h2 r)
    \<and> (set (cards h1) \<inter> set (cards h2) = {} \<longrightarrow>
          (\<exists>r. rank h1 h2 = Inr (Some r) \<and> win_or_draw h1 h2 r))"
proof -
  have len: "length (cards h1) = 5" "length (cards h2) = 5"
    using assms by (simp_all add: valid_hand_def)
  have a: "rank h1 h2 = Inl InvalidCardDeck
          \<or> (\<exists>r. rank h1 h2 = Inr (Some r) \<and> win_or_draw h1 h2 r)"
    using rank_ranked [OF len]
    by (auto simp: ranked_def split: sum.splits option.splits)
  have b: "\<exists>r. rank h1 h2 = Inr (Some r) \<and> win_or_draw h1 h2 r"
    if "set (cards h1) \<inter> set (cards h2) = {}"
    using rank_single_deck [OF assms that]
    by (auto simp: returned_def split: sum.splits option.splits)
  from a b highCard_result [of h1 h2 "''High Card''"] show ?thesis by blast
qed


theorem C4_rank_returns_result_witness:
  "valid_hand two_pairs_K3 \<and> valid_hand two_pairs_KQ
   \<and> set (cards two_pairs_K3) \<inter> set (cards two_pairs_KQ) = {}
   \<and> (\<exists>r. rank two_pairs_K3 two_pairs_KQ = Inr (Some r)
          \<and> win_or_draw two_pairs_K3 two_pairs_KQ r)"
proof -
  have a: "valid_hand two_pairs_K3" by code_simp
  have b: "valid_hand two_pairs_KQ" by code_simp
  have c: "set (cards two_pairs_K3) \<inter> set (cards two_pairs_KQ) = {}" by code_simp
  show ?thesis
    using a b c
      C4_rank_returns_result [OF a b, THEN conjunct2, THEN conjunct2, rule_format, OF c]
    by simp
qed

text \<open>
  C5: for two valid hands, \<open>rank\<close> with the hands exchanged gives the same value: the same
  Draw, or a Win that names the same owner with the same reason, the faces of a tie-break
  in the same "X over Y" order (the winner's face first); an \<open>InvalidCardDeck\<close> is raised
  for both orders or for none.
\<close>

theorem C5_rank_symmetric:
  assumes "valid_hand h1" "valid_hand h2"
  shows "rank h1 h2 = rank h2 h1"
proof -
  have len: "length (cards h1) = 5" "length (cards h2) = 5"
    using assms by (simp_all add: valid_hand_def)
  show ?thesis
    unfolding rank_def categories_def rank_loop.simps
    by (simp only: straightFlush_sym [OF len] fourOfAKind_sym [of h1 h2]
        fullHouse_sym [of h1 h2] flush_sym [of h1 h2] straight_sym [OF len]
        threeOfAKind_sym [of h1 h2] twoPairs_sym [of h1 h2] twoOfAKind_sym [of h1 h2]
        highCard_sym [of h1 h2])
qed

theorem C5_rank_symmetric_witness:
  "valid_hand two_pairs_K3 \<and> valid_hand two_pairs_KQ
   \<and> rank two_pairs_K3 two_pairs_KQ =
       Inr (Some (Result_init ''win'' (Some ''White'') (Some ''Two Pairs: Q over 3'')))
   \<and> rank two_pairs_KQ two_pairs_K3 =
       Inr (Some (Result_init ''win'' (Some ''White'') (Some ''Two Pairs: Q over 3'')))"
proof -
  have a: "valid_hand two_pairs_K3" by code_simp
  have b: "valid_hand two_pairs_KQ" by code_simp
  have c: "rank two_pairs_K3 two_pairs_KQ =
       Inr (Some (Result_init ''win'' (Some ''White'') (Some ''Two Pairs: Q over 3'')))"
    by code_simp
  show ?thesis
    using a b c C5_rank_symmetric [OF a b] by simp
qed

text \<open>
  C6: for two hands whose descending face sequences are the same, position by position,
  \<open>highCard\<close> returns a Draw: every position draws and the walk ends on the empty sequence.
  The hands of the claim have five cards; the length plays no part.
\<close>

theorem C6_highCard_same_faces_draw:
  "map face (descending h1) = map face (descending h2) \<Longrightarrow>
   highCard h1 h2 rsn = Inr (Some draw)"
  by (simp add: highCard_def deepComparison_same_faces)

theorem C6_highCard_same_faces_draw_witness:
  "map face (descending (Hand_init ''Black''
       [Card Two DIAMONDS, Card Three DIAMONDS, Card Four DIAMONDS, Card Five DIAMONDS,
        Card Seven DIAMONDS])) =
   map face (descending (Hand_init ''White''
       [Card Two CLUBS, Card Three CLUBS, Card Four CLUBS, Card Five CLUBS, Card Seven CLUBS]))
   \<and> highCard
       (Hand_init ''Black''
         [Card Two DIAMONDS, Card Three DIAMONDS, Card Four DIAMONDS, Card Five DIAMONDS,
          Card Seven DIAMONDS])
       (Hand_init ''White''
         [Card Two CLUBS, Card Three CLUBS, Card Four CLUBS, Card Five CLUBS, Card Seven CLUBS])
       ''High Card'' = Inr (Some draw)"
proof -
  have h: "map face (descending (Hand_init ''Black''
       [Card Two DIAMONDS, Card Three DIAMONDS, Card Four DIAMONDS, Card Five DIAMONDS,
        Card Seven DIAMONDS])) =
   map face (descending (Hand_init ''White''
       [Card Two CLUBS, Card Three CLUBS, Card Four CLUBS, Card Five CLUBS, Card Seven CLUBS]))"
    by code_simp
  show ?thesis
    using h C6_highCard_same_faces_draw [OF h, of "''High Card''"] by simp
qed

text \<open>
  C7: for a valid hand, when some face occurs exactly twice, \<open>pair\<close> returns the highest
  such face with a new hand of the same owner that holds the cards of another face,
  exactly three of them; when no face occurs exactly twice (a face that occurs three or four
  times does not count), \<open>pair\<close> returns \<open>None\<close> with the hand itself.
\<close>

theorem C7_pair_highest_and_residual:
  assumes "valid_hand h"
  shows "((\<exists>f. count_face (cards h) f = 2) \<longrightarrow>
           (\<exists>f. Hand_pair h = (Some f, Hand_init (colour h) [c \<leftarrow> cards h. face c \<noteq> f])
              \<and> count_face (cards h) f = 2
              \<and> (\<forall>g. count_face (cards h) g = 2 \<longrightarrow> Face_value g \<le> Face_value f)
              \<and> length [c \<leftarrow> cards h. face c \<noteq> f] = 3))
    \<and> ((\<forall>f. count_face (cards h) f \<noteq> 2) \<longrightarrow> Hand_pair h = (None, h))"
proof -
  from assms obtain col cs where h: "h = Hand_init col cs" "distinct cs" "length cs = 5"
    by (rule valid_hand_init)
  show ?thesis
  proof (cases "facesOccuringTimes (Hand_init col cs) 2")
    case Nil
    then have "\<forall>f. count_face cs f \<noteq> 2"
      using facesOccuringTimes_Nil [of 2 col cs] by simp
    with Nil show ?thesis by (simp add: h(1) Hand_pair_init)
  next
    case (Cons f0 fs)
    have c: "count_face cs f0 = 2"
      using facesOccuringTimes_Cons(1) [OF _ Cons] by simp
    have m: "Face_value g \<le> Face_value f0" if "count_face cs g = 2" for g
      using facesOccuringTimes_Cons(2) [OF _ Cons that] by simp
    have p: "pyset [c \<leftarrow> cs. face c \<noteq> f0] = [c \<leftarrow> cs. face c \<noteq> f0]"
      using h(2) by (simp add: pyset_distinct)
    have l: "length [c \<leftarrow> cs. face c \<noteq> f0] = 3"
      using c h(3) by (simp add: length_residual)
    have "Hand_pair h = (Some f0, Hand_init col [c \<leftarrow> cs. face c \<noteq> f0])"
      by (simp add: h(1) Hand_pair_init Cons p)
    with c m l show ?thesis by (auto simp: h(1))
  qed
qed

theorem C7_pair_highest_and_residual_witness:
  "valid_hand pair_of_twos \<and> count_face (cards pair_of_twos) Two = 2
   \<and> (\<exists>f. Hand_pair pair_of_twos =
             (Some f, Hand_init (colour pair_of_twos) [c \<leftarrow> cards pair_of_twos. face c \<noteq> f])
          \<and> count_face (cards pair_of_twos) f = 2
          \<and> (\<forall>g. count_face (cards pair_of_twos) g = 2 \<longrightarrow> Face_value g \<le> Face_value f)
          \<and> length [c \<leftarrow> cards pair_of_twos. face c \<noteq> f] = 3)"
proof -
  have a: "valid_hand pair_of_twos" by code_simp
  have b: "count_face (cards pair_of_twos) Two = 2" by code_simp
  then have c: "\<exists>f. count_face (cards pair_of_twos) f = 2" ..
  show ?thesis
    using a b C7_pair_highest_and_residual [OF a, THEN conjunct1, rule_format, OF c]
    by simp
qed

text \<open>
  C8: the text \<open>Black: 2H 3H 4H 5H 6H\<close> is read as a hand of five hearts in a run; the text
  \<open>White: AC AH AS AS KH\<close> repeats \<open>AS\<close> and is read as a hand of four cards; ranking the two
  returns a Win for Black with the reason \<open>Straight Flush\<close>.
\<close>

theorem C8_straight_flush_over_aces:
  "Hand_fromRep ''Black: 2H 3H 4H 5H 6H'' = Inr black_2H_6H
   \<and> Hand_fromRep ''White: AC AH AS AS KH'' = Inr white_aces
   \<and> length (cards white_aces) = 4
   \<and> rank black_2H_6H white_aces =
       Inr (Some (Result_init ''win'' (Some ''Black'') (Some ''Straight Flush'')))"
  by code_simp

text \<open>
  C9: on every hand of exactly five cards \<open>straight\<close> returns (a face or \<open>None\<close>) without an
  error; the text \<open>Black: 6H 5H 4H 3H 3H\<close> is read as a hand of four cards, the repeated card
  counted once, and on that hand \<open>straight\<close> raises \<open>IndexError\<close>: the first three
  comparisons hold and the fourth reads index 4 of a list of four.
\<close>

theorem C9_straight_needs_five_cards:
  "(\<forall>h. length (cards h) = 5 \<longrightarrow> (\<exists>r. Hand_straight h = Inr r))
   \<and> Hand_fromRep ''Black: 6H 5H 4H 3H 3H'' = Inr four_run
   \<and> length (cards four_run) = 4
   \<and> Hand_straight four_run = Inl IndexError"
proof -
  have "Hand_fromRep ''Black: 6H 5H 4H 3H 3H'' = Inr four_run
   \<and> length (cards four_run) = 4
   \<and> Hand_straight four_run = Inl IndexError"
    by code_simp
  then show ?thesis using Hand_straight_total by blast
qed

theorem C9_straight_needs_five_cards_witness:
  "length (cards black_2H_6H) = 5 \<and> (\<exists>r. Hand_straight black_2H_6H = Inr r)
   \<and> Hand_straight four_run = Inl IndexError"
proof -
  have a: "length (cards black_2H_6H) = 5" by code_simp
  show ?thesis
    using a C9_straight_needs_five_cards [THEN conjunct1, rule_format, OF a]
      C9_straight_needs_five_cards [THEN conjunct2]
    by simp
qed






end
